theory Spec2Isabelle
  imports Complex_Main
begin

section \<open>Voice tools: upload validation, job progress, batch coordination, artifacts\<close>

text \<open>
  A shallow embedding of the browser-side managers of the voice tools:
  \<^verbatim>\<open>AudioTranslateUtils\<close>, \<^verbatim>\<open>FileUploadManager\<close>, \<^verbatim>\<open>TranscriptionManager\<close>,
  \<^verbatim>\<open>BatchProcessingManager\<close> and \<^verbatim>\<open>TranslationManager\<close>.

  Conventions of the embedding.
  \<^item> Every element looked up by id exists, as the page templates create all of them.
    The part of the page a manager reads or writes is a field of the manager's state.
  \<^item> \<^verbatim>\<open>innerHTML\<close> is kept by content (which lines, which texts), not by markup.
  \<^item> A timer callback is an event of the model. The draw of \<^verbatim>\<open>Math.random()\<close> made
    in a callback is the parameter \<open>r\<close> of the event, a double with \<open>0 \<le> r < 1\<close>.
  \<^item> The progress of a single job is accumulated over the ticks
    (\<^verbatim>\<open>progress += Math.random() * 10\<close>), and the model accumulates it in double
    arithmetic. The progress of a batch is computed afresh from the draw of each tick; the
    model computes it exactly.
  \<^item> The continuation after \<^verbatim>\<open>await\<close> runs as a microtask right after the callback
    that resolved the promise, so the model runs it at the end of that tick.
  \<^item> Each manager is taken with its own handlers. That the document-level click handler
    of the transcription manager also matches the download buttons of the other tabs is
    not part of the model.
\<close>

subsection \<open>Strings and numbers as JavaScript prints them\<close>

definition digit_char :: "nat \<Rightarrow> char" where
  "digit_char d = ''0123456789'' ! d"

text \<open>Decimal digits of a non-negative integer (\<^verbatim>\<open>String(n)\<close>).\<close>

fun string_of_nat :: "nat \<Rightarrow> string" where
  "string_of_nat n =
     (if n < 10 then [digit_char n]
      else string_of_nat (n div 10) @ [digit_char (n mod 10)])"

declare string_of_nat.simps [simp del]

text \<open>\<^verbatim>\<open>Array.prototype.join\<close> on strings.\<close>

fun join :: "string \<Rightarrow> string list \<Rightarrow> string" where
  "join sep [] = []"
| "join sep [x] = x"
| "join sep (x # y # ys) = x @ sep @ join sep (y # ys)"

text \<open>\<^verbatim>\<open>String.prototype.toLowerCase\<close> on ASCII text.\<close>

definition lower_char :: "char \<Rightarrow> char" where
  "lower_char c =
     (case map_of (zip ''ABCDEFGHIJKLMNOPQRSTUVWXYZ'' ''abcdefghijklmnopqrstuvwxyz'') c of
        Some l \<Rightarrow> l
      | None \<Rightarrow> c)"

definition toLowerCase :: "string \<Rightarrow> string" where
  "toLowerCase s = map lower_char s"

subsection \<open>Double arithmetic\<close>

text \<open>
  A JavaScript number is an IEEE 754 double. The sum or product of two doubles is the
  exact result rounded to the nearest double, to the one with the even significand on a
  tie: \<open>fl\<close> of the exact result. The unit of a number is \<open>2\<close> to the power of its binary
  exponent less 52, the exponent taken as \<open>- 1022\<close> for the subnormal numbers. Results
  of magnitude \<open>2 ^ 1024\<close> and more, which round to an infinity, do not occur in the
  progress computations: a draw is below 1 and a progress below 115.
\<close>

text \<open>The nearest integer, the even one on a tie.\<close>

definition round_even :: "real \<Rightarrow> int" where
  "round_even y =
     (if y - of_int \<lfloor>y\<rfloor> < 1 / 2 \<or> (y - of_int \<lfloor>y\<rfloor> = 1 / 2 \<and> even \<lfloor>y\<rfloor>)
      then \<lfloor>y\<rfloor> else \<lfloor>y\<rfloor> + 1)"

definition double_exponent :: "real \<Rightarrow> int" where
  "double_exponent x = max \<lfloor>log 2 \<bar>x\<bar>\<rfloor> (- 1022)"

definition double_ulp :: "real \<Rightarrow> real" where
  "double_ulp x = 2 powr (of_int (double_exponent x) - 52)"

definition fl :: "real \<Rightarrow> real" where
  "fl x = (if x = 0 then 0 else of_int (round_even (x / double_ulp x)) * double_ulp x)"

text \<open>
  The running total of the increments \<open>r * factor\<close> of the draws \<open>rs\<close>, as the double
  additions of \<^verbatim>\<open>progress += Math.random() * factor\<close> accumulate it, without the cap
  at 100.
\<close>

definition running_total :: "real \<Rightarrow> real list \<Rightarrow> real" where
  "running_total factor rs = foldl (\<lambda>t r. fl (t + fl (r * factor))) 0 rs"

subsection \<open>The notifier\<close>

datatype notification_type = Info | Success | Error | Warning

type_synonym notification = "string \<times> notification_type"

text \<open>
  \<^verbatim>\<open>AudioTranslateUtils.showNotification(message, type)\<close> appends one notification
  element to the page. The model keeps the notifications shown so far, oldest first;
  that an element leaves the page after five seconds, or when its close button is
  clicked, is not part of the model.
\<close>

definition showNotification :: "string \<Rightarrow> notification_type \<Rightarrow> notification list \<Rightarrow> notification list" where
  "showNotification message ty ns = ns @ [(message, ty)]"

subsection \<open>AudioTranslateUtils: size formatting and file validation\<close>

record media_file =
  file_name :: string
  file_size :: nat
  file_type :: string

text \<open>
  \<^verbatim>\<open>Math.floor(Math.log(bytes) / Math.log(1024))\<close> for \<open>bytes > 0\<close>: the largest
  \<open>i\<close> with \<open>1024 ^ i \<le> bytes\<close> (lemma \<open>floor_log_k_bounds\<close> below). The rounding of
  \<^verbatim>\<open>Math.log\<close> is not part of the model; a file size is a non-negative integer.
\<close>

fun floor_log_k :: "nat \<Rightarrow> nat" where
  "floor_log_k bytes = (if bytes < 1024 then 0 else Suc (floor_log_k (bytes div 1024)))"

declare floor_log_k.simps [simp del]

text \<open>
  \<^verbatim>\<open>(bytes / Math.pow(1024, i)).toFixed(2)\<close>, as the number of hundredths it
  denotes: the quotient is an exact binary fraction, and \<^verbatim>\<open>toFixed\<close> picks the
  nearest multiple of 0.01, the larger one on a tie.
\<close>

definition toFixed2 :: "nat \<Rightarrow> nat \<Rightarrow> nat" where
  "toFixed2 bytes i = (200 * bytes + 1024 ^ i) div (2 * 1024 ^ i)"

text \<open>
  \<^verbatim>\<open>parseFloat(s) + ''\<close> for the two-decimal string \<open>s\<close> of \<open>h\<close> hundredths:
  the number prints without trailing zeros and without a bare decimal point.
\<close>

definition parseFloat_string :: "nat \<Rightarrow> string" where
  "parseFloat_string h =
     string_of_nat (h div 100) @
       (if h mod 100 = 0 then []
        else if h mod 10 = 0 then ''.'' @ [digit_char (h mod 100 div 10)]
        else ''.'' @ [digit_char (h mod 100 div 10), digit_char (h mod 10)])"

definition sizes :: "string list" where
  "sizes = [''Bytes'', ''KB'', ''MB'', ''GB'']"

text \<open>\<^verbatim>\<open>sizes[i]\<close>; past the end of the array the concatenation prints \<^verbatim>\<open>undefined\<close>.\<close>

definition sizes_at :: "nat \<Rightarrow> string" where
  "sizes_at i = (if i < length sizes then sizes ! i else ''undefined'')"

definition formatFileSize :: "nat \<Rightarrow> string" where
  "formatFileSize bytes =
     (if bytes = 0 then ''0 Bytes''
      else let i = floor_log_k bytes
           in parseFloat_string (toFixed2 bytes i) @ '' '' @ sizes_at i)"

record validation =
  isValid :: bool
  errors :: "string list"

definition validateFile :: "media_file \<Rightarrow> string list \<Rightarrow> nat \<Rightarrow> validation" where
  "validateFile file allowedTypes maxSize =
     (let errors1 =
            (if file_type file \<notin> set allowedTypes
             then [''File type not supported. Allowed types: '' @ join '', '' allowedTypes]
             else []);
          errors2 =
            errors1 @
            (if file_size file > maxSize
             then [''File too large. Maximum size: '' @ formatFileSize maxSize]
             else [])
      in \<lparr> isValid = (length errors2 = 0), errors = errors2 \<rparr>)"

subsection \<open>FileUploadManager: what a file selection shows and notifies\<close>

definition allowedAudioTypes :: "string list" where
  "allowedAudioTypes = [''audio/mpeg'', ''audio/wav'', ''audio/m4a'', ''audio/ogg'']"

text \<open>The content written to a file-info element (single-file upload areas).\<close>

datatype file_info =
    FileSelected string string  \<comment> \<open>file name, formatted size\<close>
  | FileError string            \<comment> \<open>the joined error texts\<close>

record upload_ui =
  ui_fileInfo :: "file_info option"
  ui_buttonDisabled :: bool
  ui_notifications :: "notification list"

definition handleFileSelection :: "media_file list \<Rightarrow> upload_ui \<Rightarrow> upload_ui" where
  "handleFileSelection files ui =
     (case files of
        [] \<Rightarrow> ui
      | file # _ \<Rightarrow>
          let validation = validateFile file allowedAudioTypes (100 * 1024 * 1024)
          in if isValid validation
             then ui \<lparr> ui_fileInfo := Some (FileSelected (file_name file) (formatFileSize (file_size file))),
                       ui_buttonDisabled := False,
                       ui_notifications :=
                         showNotification ''File uploaded successfully!'' Success (ui_notifications ui) \<rparr>
             else ui \<lparr> ui_fileInfo := Some (FileError (join '', '' (errors validation))),
                       ui_buttonDisabled := True,
                       ui_notifications :=
                         showNotification (join '', '' (errors validation)) Error (ui_notifications ui) \<rparr>)"

text \<open>The lines written to the batch file list.\<close>

datatype list_line =
    LiOk string string   \<comment> \<open>file name, formatted size\<close>
  | LiErr string string  \<comment> \<open>file name, joined error texts\<close>
  | PErr string          \<comment> \<open>a paragraph in the danger colour\<close>

record batch_ui =
  bu_fileList :: "list_line list"
  bu_processDisabled :: bool
  bu_notifications :: "notification list"

text \<open>
  The \<^verbatim>\<open>for\<close> loop of \<^verbatim>\<open>handleBatchFileSelection\<close> over the files, carrying
  \<^verbatim>\<open>fileListHTML\<close>, \<^verbatim>\<open>totalSize\<close> and \<^verbatim>\<open>hasErrors\<close>.
\<close>

fun batch_file_loop ::
  "media_file list \<Rightarrow> list_line list \<times> nat \<times> bool \<Rightarrow> list_line list \<times> nat \<times> bool" where
  "batch_file_loop [] acc = acc"
| "batch_file_loop (file # files) (html, totalSize, hasErrors) =
     (let validation = validateFile file allowedAudioTypes (50 * 1024 * 1024);
          totalSize' = totalSize + file_size file
      in if isValid validation
         then batch_file_loop files
                (html @ [LiOk (file_name file) (formatFileSize (file_size file))], totalSize', hasErrors)
         else batch_file_loop files
                (html @ [LiErr (file_name file) (join '', '' (errors validation))], totalSize', True))"

definition handleBatchFileSelection :: "media_file list \<Rightarrow> batch_ui \<Rightarrow> batch_ui" where
  "handleBatchFileSelection files ui =
     (if length files > 0 then
        (case batch_file_loop files ([], 0, False) of
           (html, totalSize, hasErrors) \<Rightarrow>
             let (html1, hasErrors1) =
                   (if totalSize > 500 * 1024 * 1024
                    then (html @ [PErr ''Total size exceeds 500MB limit''], True)
                    else (html, hasErrors));
                 (html2, hasErrors2) =
                   (if length files > 10
                    then (html1 @ [PErr ''Maximum 10 files allowed''], True)
                    else (html1, hasErrors1))
             in ui \<lparr> bu_fileList := html2,
                       bu_processDisabled := (hasErrors2 \<or> length files = 0),
                       bu_notifications :=
                         (if \<not> hasErrors2
                          then showNotification
                                 (string_of_nat (length files) @ '' files uploaded successfully!'')
                                 Success (bu_notifications ui)
                          else bu_notifications ui) \<rparr>)
      else ui)"

record button =
  disabled :: bool
  textContent :: string

subsection \<open>TranslationManager\<close>

text \<open>
  A JavaScript \<^verbatim>\<open>Set\<close> of strings, as the list of its elements in insertion order
  (the order \<^verbatim>\<open>forEach\<close> visits them).
\<close>

definition set_has :: "string list \<Rightarrow> string \<Rightarrow> bool" where
  "set_has xs x = (x \<in> set xs)"

definition set_add :: "string list \<Rightarrow> string \<Rightarrow> string list" where
  "set_add xs x = (if x \<in> set xs then xs else xs @ [x])"

definition set_delete :: "string list \<Rightarrow> string \<Rightarrow> string list" where
  "set_delete xs x = removeAll x xs"

record language_data =
  lang_name :: string
  lang_flag :: string  \<comment> \<open>the flag emoji, named by its region letters\<close>

definition languages :: "(string \<times> language_data) list" where
  "languages =
     [(''de'', \<lparr> lang_name = ''German'', lang_flag = ''DE'' \<rparr>),
      (''fr'', \<lparr> lang_name = ''French'', lang_flag = ''FR'' \<rparr>),
      (''ru'', \<lparr> lang_name = ''Russian'', lang_flag = ''RU'' \<rparr>),
      (''zh'', \<lparr> lang_name = ''Chinese'', lang_flag = ''CN'' \<rparr>),
      (''ja'', \<lparr> lang_name = ''Japanese'', lang_flag = ''JP'' \<rparr>),
      (''hi'', \<lparr> lang_name = ''Hindi'', lang_flag = ''IN'' \<rparr>),
      (''ar'', \<lparr> lang_name = ''Arabic'', lang_flag = ''SA'' \<rparr>),
      (''it'', \<lparr> lang_name = ''Italian'', lang_flag = ''IT'' \<rparr>)]"

definition getLanguageData :: "string \<Rightarrow> language_data" where
  "getLanguageData langCode =
     (case map_of languages langCode of
        Some d \<Rightarrow> d
      | None \<Rightarrow> \<lparr> lang_name = ''Unknown'', lang_flag = ''globe'' \<rparr>)"

text \<open>
  One \<^verbatim>\<open>.audio-player\<close> block of the translation results: its
  \<^verbatim>\<open>data-language\<close> attribute, its heading and the \<^verbatim>\<open>data-format\<close> of its
  download buttons, in document order.
\<close>

record audio_player =
  data_language :: string
  player_heading :: string
  data_formats :: "string list"

definition createTranslationOutput :: "language_data \<Rightarrow> audio_player" where
  "createTranslationOutput languageData =
     \<lparr> data_language = toLowerCase (lang_name languageData),
       player_heading = lang_flag languageData @ '' '' @ lang_name languageData @ '' Translation'',
       data_formats = [''mp3'', ''wav'', ''srt''] \<rparr>"

record translation_manager =
  selectedLanguages :: "string list"
  tl_isProcessing :: bool
  tl_optionSelected :: "string \<Rightarrow> bool"  \<comment> \<open>class \<^verbatim>\<open>selected\<close> of the option with this \<^verbatim>\<open>data-lang\<close>\<close>
  tl_files :: "media_file list"           \<comment> \<open>\<^verbatim>\<open>files\<close> of the translation file input\<close>
  tl_fileInfo :: "file_info option"       \<comment> \<open>content of the translation file-info element\<close>
  translateBtn :: button
  tl_progressShown :: bool
  tl_barWidth :: real
  tl_percentage :: int
  tl_resultsShown :: bool
  translationOutputs :: "audio_player list"
  tl_notifications :: "notification list"
  tl_interval :: "real option"  \<comment> \<open>\<^verbatim>\<open>progress\<close> of the running interval, \<open>None\<close> when none runs\<close>
  tl_timeouts :: "notification list"  \<comment> \<open>notifications of pending \<^verbatim>\<open>setTimeout\<close> callbacks\<close>

text \<open>The state the constructor leaves, on the page as the template renders it.\<close>

definition newTranslationManager :: translation_manager where
  "newTranslationManager =
     \<lparr> selectedLanguages = [],
       tl_isProcessing = False,
       tl_optionSelected = (\<lambda>_. False),
       tl_files = [],
       tl_fileInfo = None,
       translateBtn = \<lparr> disabled = True, textContent = ''Translate Audio'' \<rparr>,
       tl_progressShown = False,
       tl_barWidth = 0,
       tl_percentage = 0,
       tl_resultsShown = False,
       translationOutputs = [],
       tl_notifications = [],
       tl_interval = None,
       tl_timeouts = [] \<rparr>"

definition updateTranslateButton :: "translation_manager \<Rightarrow> translation_manager" where
  "updateTranslateButton s =
     s \<lparr> translateBtn := (translateBtn s) \<lparr> disabled := (length (selectedLanguages s) = 0) \<rparr> \<rparr>"

text \<open>The click handler that \<^verbatim>\<open>setupLanguageSelection\<close> puts on the option \<open>lang\<close>.\<close>

definition languageOptionClick :: "string \<Rightarrow> translation_manager \<Rightarrow> translation_manager" where
  "languageOptionClick lang s =
     updateTranslateButton
       (if set_has (selectedLanguages s) lang
        then s \<lparr> selectedLanguages := set_delete (selectedLanguages s) lang,
                 tl_optionSelected := (tl_optionSelected s) (lang := False) \<rparr>
        else s \<lparr> selectedLanguages := set_add (selectedLanguages s) lang,
                 tl_optionSelected := (tl_optionSelected s) (lang := True) \<rparr>)"

definition clearSelection :: "translation_manager \<Rightarrow> translation_manager" where
  "clearSelection s =
     updateTranslateButton (s \<lparr> selectedLanguages := [], tl_optionSelected := (\<lambda>_. False) \<rparr>)"

definition getSelectedLanguages :: "translation_manager \<Rightarrow> string list" where
  "getSelectedLanguages s = selectedLanguages s"

definition showTranslationResults :: "translation_manager \<Rightarrow> translation_manager" where
  "showTranslationResults s =
     s \<lparr> tl_resultsShown := True,
         translationOutputs :=
           map (\<lambda>lang. createTranslationOutput (getLanguageData lang)) (selectedLanguages s) \<rparr>"

text \<open>
  One run of the interval callback of \<^verbatim>\<open>simulateTranslationProcess\<close> on the closure
  variable \<^verbatim>\<open>progress\<close>: the new value, and whether the callback cleared the interval
  and resolved the promise.
\<close>

definition translation_interval :: "real \<Rightarrow> real \<Rightarrow> real \<times> bool" where
  "translation_interval r progress =
     (let progress1 = fl (progress + fl (r * 10))
      in if progress1 \<ge> 100 then (100, True) else (progress1, False))"

text \<open>
  The promise of \<^verbatim>\<open>simulateTranslationProcess\<close> over the draws \<open>rs\<close> of its ticks:
  \<^verbatim>\<open>progress\<close> and whether it resolved. A cleared interval runs no more callbacks.
\<close>

definition simulateTranslationProcess :: "real list \<Rightarrow> real \<times> bool" where
  "simulateTranslationProcess rs =
     foldl (\<lambda>(progress, resolved) r.
              if resolved then (progress, resolved) else translation_interval r progress)
           (0, False) rs"

text \<open>
  \<^verbatim>\<open>startTranslation\<close> up to its \<^verbatim>\<open>await\<close>, and what follows the
  \<^verbatim>\<open>await\<close> (the rest of the \<^verbatim>\<open>try\<close> and the \<^verbatim>\<open>finally\<close>).
\<close>

definition startTranslation :: "translation_manager \<Rightarrow> translation_manager" where
  "startTranslation s =
     (if tl_isProcessing s then s
      else if length (tl_files s) = 0 then
        s \<lparr> tl_notifications :=
              showNotification ''Please select an audio file first.'' Error (tl_notifications s) \<rparr>
      else if length (selectedLanguages s) = 0 then
        s \<lparr> tl_notifications :=
              showNotification ''Please select at least one target language.'' Error (tl_notifications s) \<rparr>
      else
        s \<lparr> tl_isProcessing := True,
            translateBtn := \<lparr> disabled = True, textContent = ''Translating...'' \<rparr>,
            tl_progressShown := True,
            tl_interval := Some 0 \<rparr>)"

definition startTranslation_resume :: "translation_manager \<Rightarrow> translation_manager" where
  "startTranslation_resume s =
     (let s1 = showTranslationResults s;
          s2 = s1 \<lparr> tl_notifications :=
                      showNotification ''Translation completed successfully!'' Success (tl_notifications s1) \<rparr>
      in s2 \<lparr> tl_isProcessing := False,
               translateBtn := \<lparr> disabled = False, textContent = ''Translate Audio'' \<rparr> \<rparr>)"

text \<open>A tick of the 300 ms interval, with the draw \<open>r\<close>; nothing happens when no interval runs.\<close>

definition translationTick :: "real \<Rightarrow> translation_manager \<Rightarrow> translation_manager" where
  "translationTick r s =
     (case tl_interval s of
        None \<Rightarrow> s
      | Some progress \<Rightarrow>
          (case translation_interval r progress of
             (progress', resolved) \<Rightarrow>
               let s1 = s \<lparr> tl_interval := (if resolved then None else Some progress'),
                            tl_barWidth := progress',
                            tl_percentage := round progress' \<rparr>
               in if resolved then startTranslation_resume s1 else s1))"

text \<open>The manager after the ticks with the draws \<open>rs\<close>, in order.\<close>

definition translationTicks :: "real list \<Rightarrow> translation_manager \<Rightarrow> translation_manager" where
  "translationTicks rs s = foldl (\<lambda>s r. translationTick r s) s rs"

text \<open>The local constant \<^verbatim>\<open>filename\<close> of \<^verbatim>\<open>handleTranslationDownload\<close>.\<close>

definition translationFilename :: "string \<Rightarrow> string \<Rightarrow> string" where
  "translationFilename language format = ''translation_'' @ language @ ''.'' @ format"

definition handleTranslationDownload ::
  "string \<Rightarrow> string \<Rightarrow> translation_manager \<Rightarrow> translation_manager" where
  "handleTranslationDownload language format s =
     (let filename = translationFilename language format
      in s \<lparr> tl_notifications :=
                showNotification (''Downloading '' @ filename @ ''...'') Info (tl_notifications s),
              tl_timeouts := tl_timeouts s @ [(filename @ '' downloaded successfully!'', Success)] \<rparr>)"

text \<open>
  The document click handler of \<^verbatim>\<open>bindEvents\<close>, for a click on the download
  button number \<open>j\<close> of the audio player number \<open>i\<close>: the language is the player's
  \<^verbatim>\<open>data-language\<close>, the format the button's \<^verbatim>\<open>data-format\<close>.
\<close>

definition translationDownloadClick :: "nat \<Rightarrow> nat \<Rightarrow> translation_manager \<Rightarrow> translation_manager" where
  "translationDownloadClick i j s =
     (if i < length (translationOutputs s) \<and> j < length (data_formats (translationOutputs s ! i))
      then handleTranslationDownload
             (data_language (translationOutputs s ! i))
             (data_formats (translationOutputs s ! i) ! j) s
      else s)"

text \<open>
  The output artifacts a results view offers: one per download button, as the
  (language, format) pair its click hands to \<^verbatim>\<open>handleTranslationDownload\<close>.
\<close>

definition translationArtifacts :: "translation_manager \<Rightarrow> (string \<times> string) list" where
  "translationArtifacts s =
     concat (map (\<lambda>p. map (\<lambda>f. (data_language p, f)) (data_formats p)) (translationOutputs s))"

subsection \<open>TranscriptionManager\<close>

record transcription_manager =
  tc_isProcessing :: bool
  tc_files :: "media_file list"           \<comment> \<open>\<^verbatim>\<open>files\<close> of the transcription file input\<close>
  transcribeBtn :: button
  tc_progressShown :: bool
  tc_barWidth :: real
  tc_percentage :: int
  tc_resultsShown :: bool
  tc_sampleRendered :: bool  \<comment> \<open>the fixed sample transcript and subtitles are rendered\<close>
  tc_notifications :: "notification list"
  tc_interval :: "real option"
  tc_timeouts :: "notification list"

definition newTranscriptionManager :: transcription_manager where
  "newTranscriptionManager =
     \<lparr> tc_isProcessing = False,
       tc_files = [],
       transcribeBtn = \<lparr> disabled = True, textContent = ''Transcribe Audio'' \<rparr>,
       tc_progressShown = False,
       tc_barWidth = 0,
       tc_percentage = 0,
       tc_resultsShown = False,
       tc_sampleRendered = False,
       tc_notifications = [],
       tc_interval = None,
       tc_timeouts = [] \<rparr>"

definition transcription_interval :: "real \<Rightarrow> real \<Rightarrow> real \<times> bool" where
  "transcription_interval r progress =
     (let progress1 = fl (progress + fl (r * 15))
      in if progress1 \<ge> 100 then (100, True) else (progress1, False))"

definition simulateTranscriptionProcess :: "real list \<Rightarrow> real \<times> bool" where
  "simulateTranscriptionProcess rs =
     foldl (\<lambda>(progress, resolved) r.
              if resolved then (progress, resolved) else transcription_interval r progress)
           (0, False) rs"

definition showTranscriptionResults :: "transcription_manager \<Rightarrow> transcription_manager" where
  "showTranscriptionResults s = s \<lparr> tc_resultsShown := True, tc_sampleRendered := True \<rparr>"

definition startTranscription :: "transcription_manager \<Rightarrow> transcription_manager" where
  "startTranscription s =
     (if tc_isProcessing s then s
      else if length (tc_files s) = 0 then
        s \<lparr> tc_notifications :=
              showNotification ''Please select an audio file first.'' Error (tc_notifications s) \<rparr>
      else
        s \<lparr> tc_isProcessing := True,
            transcribeBtn := \<lparr> disabled = True, textContent = ''Processing...'' \<rparr>,
            tc_progressShown := True,
            tc_interval := Some 0 \<rparr>)"

definition startTranscription_resume :: "transcription_manager \<Rightarrow> transcription_manager" where
  "startTranscription_resume s =
     (let s1 = showTranscriptionResults s;
          s2 = s1 \<lparr> tc_notifications :=
                      showNotification ''Transcription completed successfully!'' Success (tc_notifications s1) \<rparr>
      in s2 \<lparr> tc_isProcessing := False,
               transcribeBtn := \<lparr> disabled = False, textContent = ''Transcribe Audio'' \<rparr> \<rparr>)"

definition transcriptionTick :: "real \<Rightarrow> transcription_manager \<Rightarrow> transcription_manager" where
  "transcriptionTick r s =
     (case tc_interval s of
        None \<Rightarrow> s
      | Some progress \<Rightarrow>
          (case transcription_interval r progress of
             (progress', resolved) \<Rightarrow>
               let s1 = s \<lparr> tc_interval := (if resolved then None else Some progress'),
                            tc_barWidth := progress',
                            tc_percentage := round progress' \<rparr>
               in if resolved then startTranscription_resume s1 else s1))"

definition transcriptionTicks :: "real list \<Rightarrow> transcription_manager \<Rightarrow> transcription_manager" where
  "transcriptionTicks rs s = foldl (\<lambda>s r. transcriptionTick r s) s rs"

text \<open>The local constant \<^verbatim>\<open>filename\<close> of \<^verbatim>\<open>handleDownload\<close>.\<close>

definition transcriptionFilename :: "string \<Rightarrow> string" where
  "transcriptionFilename format = ''transcription.'' @ format"

definition handleDownload :: "string \<Rightarrow> transcription_manager \<Rightarrow> transcription_manager" where
  "handleDownload format s =
     (let filename = transcriptionFilename format
      in s \<lparr> tc_notifications :=
                showNotification (''Downloading '' @ filename @ ''...'') Info (tc_notifications s),
              tc_timeouts := tc_timeouts s @ [(filename @ '' downloaded successfully!'', Success)] \<rparr>)"

subsection \<open>BatchProcessingManager\<close>

text \<open>An element of \<^verbatim>\<open>currentBatch\<close>, by the two properties \<^verbatim>\<open>getBatchSummary\<close> reads.\<close>

record batch_entry =
  entry_status :: string
  entry_size :: nat

text \<open>The closure of the promise of \<^verbatim>\<open>simulateBatchProcess\<close>.\<close>

record batch_closure =
  progress :: real
  filesProcessed :: nat
  progressPerFile :: real
  currentFile :: nat

record file_result_item =
  item_name :: string
  item_size :: string
  item_operation :: string
  item_status :: string
  item_index :: nat

record batch_results =
  results_count :: nat
  results_operation :: string
  results_items :: "file_result_item list"

record batch_manager =
  currentBatch :: "batch_entry list"
  b_isProcessing :: bool
  b_files :: "media_file list"     \<comment> \<open>\<^verbatim>\<open>files\<close> of the batch file input\<close>
  b_operation :: string             \<comment> \<open>value of the operation select\<close>
  b_fileList :: "list_line list"
  processBtn :: button
  b_progressShown :: bool
  b_barWidth :: real
  b_percentage :: int
  b_resultsShown :: bool
  batchOutputs :: "batch_results option"
  b_notifications :: "notification list"
  b_interval :: "(batch_closure \<times> string) option"
     \<comment> \<open>the running interval's closure, and \<^verbatim>\<open>operation\<close> as the suspended call holds it\<close>
  b_timeouts :: "notification list"

definition newBatchManager :: batch_manager where
  "newBatchManager =
     \<lparr> currentBatch = [],
       b_isProcessing = False,
       b_files = [],
       b_operation = ''transcribe'',
       b_fileList = [],
       processBtn = \<lparr> disabled = True, textContent = ''Process Files'' \<rparr>,
       b_progressShown = False,
       b_barWidth = 0,
       b_percentage = 0,
       b_resultsShown = False,
       batchOutputs = None,
       b_notifications = [],
       b_interval = None,
       b_timeouts = [] \<rparr>"

text \<open>
  The closure \<^verbatim>\<open>simulateBatchProcess\<close> sets up before the first tick. It is called
  with \<open>fileCount \<ge> 1\<close> only (\<^verbatim>\<open>processBatch\<close> returns early on an empty input).
\<close>

definition simulateBatchProcess :: "nat \<Rightarrow> batch_closure" where
  "simulateBatchProcess fileCount =
     \<lparr> progress = 0,
       filesProcessed = min fileCount 10,
       progressPerFile = 100 / real (min fileCount 10),
       currentFile = 0 \<rparr>"

text \<open>
  One run of the interval callback on the closure, with the draw \<open>r\<close>: the closure
  after it, and whether the callback cleared the interval and resolved the promise.
\<close>

definition batch_interval :: "real \<Rightarrow> batch_closure \<Rightarrow> batch_closure \<times> bool" where
  "batch_interval r c =
     (let fileProgress = r * 20;
          progress1 = real (currentFile c) * progressPerFile c
                      + fileProgress * progressPerFile c / 100;
          resolved = (progress1 \<ge> 100);
          progress2 = (if resolved then 100 else progress1);
          currentFile' =
            (if fileProgress \<ge> 95 \<and> int (currentFile c) < int (filesProcessed c) - 1
             then currentFile c + 1 else currentFile c)
      in (c \<lparr> progress := progress2, currentFile := currentFile' \<rparr>, resolved))"

text \<open>The closure after the ticks with draws \<open>rs\<close>, and whether the promise resolved.\<close>

definition simulateBatchRun :: "nat \<Rightarrow> real list \<Rightarrow> batch_closure \<times> bool" where
  "simulateBatchRun fileCount rs =
     foldl (\<lambda>(c, resolved) r. if resolved then (c, resolved) else batch_interval r c)
           (simulateBatchProcess fileCount, False) rs"

definition getOperationName :: "string \<Rightarrow> string" where
  "getOperationName operation =
     (case map_of [(''transcribe'', ''Transcription''),
                   (''translate'', ''Translation''),
                   (''both'', ''Transcription & Translation'')] operation of
        Some n \<Rightarrow> n
      | None \<Rightarrow> operation)"

definition createFileResultItem :: "media_file \<Rightarrow> nat \<Rightarrow> string \<Rightarrow> file_result_item" where
  "createFileResultItem file index operation =
     \<lparr> item_name = file_name file,
       item_size = formatFileSize (file_size file),
       item_operation = operation,
       item_status = ''completed'',
       item_index = index \<rparr>"

definition showBatchResults :: "string \<Rightarrow> media_file list \<Rightarrow> batch_manager \<Rightarrow> batch_manager" where
  "showBatchResults operation files s =
     s \<lparr> b_resultsShown := True,
         batchOutputs :=
           Some \<lparr> results_count = length files,
                  results_operation = getOperationName operation,
                  results_items =
                    map (\<lambda>(file, index). createFileResultItem file index operation)
                        (zip files [0 ..< length files]) \<rparr> \<rparr>"

definition processBatch :: "batch_manager \<Rightarrow> batch_manager" where
  "processBatch s =
     (if b_isProcessing s then s
      else if length (b_files s) = 0 then
        s \<lparr> b_notifications :=
              showNotification ''Please select files to process.'' Error (b_notifications s) \<rparr>
      else
        s \<lparr> b_isProcessing := True,
            processBtn := \<lparr> disabled = True, textContent = ''Processing...'' \<rparr>,
            b_progressShown := True,
            b_interval := Some (simulateBatchProcess (length (b_files s)), b_operation s) \<rparr>)"

definition processBatch_resume :: "string \<Rightarrow> batch_manager \<Rightarrow> batch_manager" where
  "processBatch_resume operation s =
     (let s1 = showBatchResults operation (b_files s) s;
          s2 = s1 \<lparr> b_notifications :=
                      showNotification ''Batch processing completed!'' Success (b_notifications s1) \<rparr>
      in s2 \<lparr> b_isProcessing := False,
               processBtn := \<lparr> disabled = False, textContent = ''Process Files'' \<rparr> \<rparr>)"

text \<open>A tick of the 200 ms interval, with the draw \<open>r\<close>.\<close>

definition batchTick :: "real \<Rightarrow> batch_manager \<Rightarrow> batch_manager" where
  "batchTick r s =
     (case b_interval s of
        None \<Rightarrow> s
      | Some (c, operation) \<Rightarrow>
          (case batch_interval r c of
             (c', resolved) \<Rightarrow>
               let s1 = s \<lparr> b_interval := (if resolved then None else Some (c', operation)),
                            b_barWidth := progress c',
                            b_percentage := round (progress c') \<rparr>
               in if resolved then processBatch_resume operation s1 else s1))"

definition handleBatchDownload :: "string \<Rightarrow> batch_manager \<Rightarrow> batch_manager" where
  "handleBatchDownload format s =
     (let filename = ''batch_results.'' @ format
      in s \<lparr> b_notifications :=
                showNotification (''Preparing '' @ filename @ '' for download...'') Info (b_notifications s),
              b_timeouts := b_timeouts s @ [(filename @ '' downloaded successfully!'', Success)] \<rparr>)"

record batch_summary =
  totalFiles :: nat
  processedFiles :: nat
  failedFiles :: nat
  totalSize :: nat

definition getBatchSummary :: "batch_manager \<Rightarrow> batch_summary" where
  "getBatchSummary s =
     \<lparr> totalFiles = length (currentBatch s),
       processedFiles = length (filter (\<lambda>file. entry_status file = ''completed'') (currentBatch s)),
       failedFiles = length (filter (\<lambda>file. entry_status file = ''failed'') (currentBatch s)),
       totalSize = foldl (\<lambda>sum file. sum + entry_size file) 0 (currentBatch s) \<rparr>"

definition resetBatch :: "batch_manager \<Rightarrow> batch_manager" where
  "resetBatch s =
     s \<lparr> currentBatch := [],
         b_files := [],
         b_fileList := [],
         processBtn := (processBtn s) \<lparr> disabled := True \<rparr>,
         b_resultsShown := False \<rparr>"

text \<open>
  Everything that can happen to the batch tab: the user picks files (the upload manager
  validates them and writes the file list, the button and the notifications), picks an
  operation, clicks the process button or a batch download button; the interval ticks;
  a pending timeout fires; a caller resets the batch. A click on the process button
  stands for every call of \<^verbatim>\<open>processBatch\<close>: it runs the handler whether or not the
  button is enabled at that moment, so the runs of the model include all runs of the page.
\<close>

datatype batch_event =
    FilesPicked "media_file list"
  | OperationPicked string
  | ProcessClick
  | IntervalTick real
  | BatchDownloadClick string
  | TimeoutFires
  | ResetBatch

definition filesPicked :: "media_file list \<Rightarrow> batch_manager \<Rightarrow> batch_manager" where
  "filesPicked files s =
     (let ui = handleBatchFileSelection files
                 \<lparr> bu_fileList = b_fileList s,
                   bu_processDisabled = disabled (processBtn s),
                   bu_notifications = b_notifications s \<rparr>
      in s \<lparr> b_files := files,
              b_fileList := bu_fileList ui,
              processBtn := (processBtn s) \<lparr> disabled := bu_processDisabled ui \<rparr>,
              b_notifications := bu_notifications ui \<rparr>)"

definition timeoutFires :: "batch_manager \<Rightarrow> batch_manager" where
  "timeoutFires s =
     (case b_timeouts s of
        [] \<Rightarrow> s
      | (message, ty) # rest \<Rightarrow>
          s \<lparr> b_notifications := showNotification message ty (b_notifications s),
              b_timeouts := rest \<rparr>)"

fun batch_step :: "batch_manager \<Rightarrow> batch_event \<Rightarrow> batch_manager" where
  "batch_step s (FilesPicked files) = filesPicked files s"
| "batch_step s (OperationPicked operation) = s \<lparr> b_operation := operation \<rparr>"
| "batch_step s ProcessClick = processBatch s"
| "batch_step s (IntervalTick r) = batchTick r s"
| "batch_step s (BatchDownloadClick format) = handleBatchDownload format s"
| "batch_step s TimeoutFires = timeoutFires s"
| "batch_step s ResetBatch = resetBatch s"

definition batch_run :: "batch_event list \<Rightarrow> batch_manager" where
  "batch_run events = foldl batch_step newBatchManager events"

text \<open>
  The target-language options the translation tab renders (the \<^verbatim>\<open>data-lang\<close>
  attributes of its \<^verbatim>\<open>.language-option\<close> elements, in document order);
  \<^verbatim>\<open>setupLanguageSelection\<close> puts a click handler on each of them.
\<close>

definition languageOptions :: "string list" where
  "languageOptions = [''de'', ''fr'', ''ru'', ''zh'', ''ja'', ''hi'', ''ar'', ''it'']"

text \<open>
  Everything that can happen to the translation tab: a click on one of the language
  options, a file selection, a click on the translate button, a tick of the interval,
  a click on a download button of the results, a call of \<^verbatim>\<open>clearSelection\<close>.
  A click on the translate button stands for every call of \<^verbatim>\<open>startTranslation\<close>:
  it runs the handler whether or not the button is enabled at that moment, so the runs
  of the model include all runs of the page.
\<close>

datatype translation_event =
    OptionClick string
  | TranslationFilesPicked "media_file list"
  | TranslateClick
  | TranslationTick real
  | DownloadClick nat nat
  | ClearSelection

text \<open>
  A file selection in the translation upload area: the input holds the files, and the
  upload manager validates the first one and writes the file-info element, the translate
  button and the notifications.
\<close>

definition translationFilesPicked :: "media_file list \<Rightarrow> translation_manager \<Rightarrow> translation_manager" where
  "translationFilesPicked files s =
     (let ui = handleFileSelection files
                 \<lparr> ui_fileInfo = tl_fileInfo s,
                   ui_buttonDisabled = disabled (translateBtn s),
                   ui_notifications = tl_notifications s \<rparr>
      in s \<lparr> tl_files := files,
              tl_fileInfo := ui_fileInfo ui,
              translateBtn := (translateBtn s) \<lparr> disabled := ui_buttonDisabled ui \<rparr>,
              tl_notifications := ui_notifications ui \<rparr>)"

fun translation_step :: "translation_manager \<Rightarrow> translation_event \<Rightarrow> translation_manager" where
  "translation_step s (OptionClick lang) =
     (if lang \<in> set languageOptions then languageOptionClick lang s else s)"
| "translation_step s (TranslationFilesPicked files) = translationFilesPicked files s"
| "translation_step s TranslateClick = startTranslation s"
| "translation_step s (TranslationTick r) = translationTick r s"
| "translation_step s (DownloadClick i j) = translationDownloadClick i j s"
| "translation_step s ClearSelection = clearSelection s"

definition translation_run :: "translation_event list \<Rightarrow> translation_manager" where
  "translation_run events = foldl translation_step newTranslationManager events"

text \<open>
  What every closure of a batch run satisfies: the constants set up from the file count,
  and a file pointer below the number of files processed.
\<close>

definition batch_closure_inv :: "nat \<Rightarrow> batch_closure \<Rightarrow> bool" where
  "batch_closure_inv fileCount c =
     (filesProcessed c = min fileCount 10
      \<and> progressPerFile c = 100 / real (min fileCount 10)
      \<and> currentFile c < min fileCount 10)"

text \<open>
  The \<^verbatim>\<open>data-language\<close> attribute \<^verbatim>\<open>showTranslationResults\<close> gives the block of
  a selected language code.
\<close>

definition language_label :: "string \<Rightarrow> string" where
  "language_label lang = toLowerCase (lang_name (getLanguageData lang))"





section \<open>Properties\<close>

subsection \<open>Rounding to the nearest double\<close>

lemma round_even_of_int: "round_even (of_int n) = n"
  by (simp add: round_even_def)

lemma round_even_bounds: "\<lfloor>y\<rfloor> \<le> round_even y \<and> round_even y \<le> \<lfloor>y\<rfloor> + 1"
  by (simp add: round_even_def)

lemma round_even_mono:
  assumes "x \<le> y"
  shows "round_even x \<le> round_even y"
proof -
  have fl: "\<lfloor>x\<rfloor> \<le> \<lfloor>y\<rfloor>" using assms by (rule floor_mono)
  show ?thesis
  proof (cases "\<lfloor>x\<rfloor> = \<lfloor>y\<rfloor>")
    case True
    then have "x - of_int \<lfloor>x\<rfloor> \<le> y - of_int \<lfloor>y\<rfloor>" using assms by simp
    then show ?thesis using True by (auto simp: round_even_def)
  next
    case False
    with fl have "\<lfloor>x\<rfloor> + 1 \<le> \<lfloor>y\<rfloor>" by simp
    then show ?thesis
      using round_even_bounds [of x] round_even_bounds [of y] by linarith
  qed
qed

lemma double_exponent_ge: "- 1022 \<le> double_exponent x"
  by (simp add: double_exponent_def)

lemma double_exponent_upper:
  assumes "0 < x"
  shows "x < 2 powr (of_int (double_exponent x) + 1)"
proof -
  have "log 2 x < of_int \<lfloor>log 2 x\<rfloor> + 1" by linarith
  also have "\<dots> \<le> of_int (double_exponent x) + 1"
    using assms by (simp add: double_exponent_def)
  finally have "log 2 x < of_int (double_exponent x) + 1" .
  then show ?thesis using assms by (simp add: log_less_iff)
qed

lemma double_exponent_lower:
  assumes "0 < x" and "- 1022 < double_exponent x"
  shows "2 powr of_int (double_exponent x) \<le> x"
proof -
  from assms have "double_exponent x = \<lfloor>log 2 x\<rfloor>"
    by (simp add: double_exponent_def max_def split: if_splits)
  then have "of_int (double_exponent x) \<le> log 2 x" by simp
  then show ?thesis using assms(1) by (simp add: le_log_iff)
qed

lemma double_exponent_le:
  assumes "0 < y" and "y < 2 powr (of_int a + 1)" and "- 1022 \<le> a"
  shows "double_exponent y \<le> a"
proof -
  from assms(1,2) have "log 2 y < of_int a + 1" by (simp add: log_less_iff)
  then have "\<lfloor>log 2 y\<rfloor> \<le> a" by linarith
  then show ?thesis using assms(1,3) by (simp add: double_exponent_def)
qed

lemma double_exponent_mono:
  assumes "0 < x" and "x \<le> y"
  shows "double_exponent x \<le> double_exponent y"
proof -
  have "log 2 x \<le> log 2 y" using assms by simp
  then have "\<lfloor>log 2 x\<rfloor> \<le> \<lfloor>log 2 y\<rfloor>" by (rule floor_mono)
  then show ?thesis using assms by (simp add: double_exponent_def)
qed

lemma double_ulp_pos: "0 < double_ulp x"
  by (simp add: double_ulp_def)

lemma two_powr_nat: "(2::real) powr of_int (int n) = 2 ^ n"
  by (simp add: powr_realpow)

text \<open>A positive multiple of a power of two no finer than its own unit is a double.\<close>

lemma fl_fixed:
  assumes "0 < y" and "y = of_int n * 2 powr (of_int a - 52)" and "double_exponent y \<le> a"
  shows "fl y = y"
proof -
  define d where "d = nat (a - double_exponent y)"
  define u where "u = double_ulp y"
  have upos: "0 < u" by (simp add: u_def double_ulp_pos)
  have a: "of_int a - 52 = (of_int (double_exponent y) - 52) + real d"
    using assms(3) by (simp add: d_def)
  have "2 powr (of_int a - 52) = u * 2 ^ d"
    unfolding a u_def double_ulp_def by (simp add: powr_add powr_realpow)
  with assms(2) have y: "y = of_int (n * 2 ^ d) * u" by simp
  then have "y / u = of_int (n * 2 ^ d)" using upos by simp
  then have "round_even (y / u) = n * 2 ^ d"
    by (simp only: round_even_of_int)
  then have "fl y = of_int (n * 2 ^ d) * u"
    using assms(1) by (simp add: fl_def u_def)
  with y show ?thesis by simp
qed


lemma double_ulp_scale:
  "2 powr (of_int (double_exponent x) + 1) = 2 ^ 53 * double_ulp x"
  "2 powr of_int (double_exponent x) = 2 ^ 52 * double_ulp x"
proof -
  have "of_int (double_exponent x) + 1 = (of_int (double_exponent x) - 52) + (53::real)" by simp
  then have "2 powr (of_int (double_exponent x) + 1)
           = 2 powr (of_int (double_exponent x) - 52) * 2 powr (53::real)"
    by (metis powr_add)
  then show "2 powr (of_int (double_exponent x) + 1) = 2 ^ 53 * double_ulp x"
    unfolding double_ulp_def by simp
  have "of_int (double_exponent x) = (of_int (double_exponent x) - 52) + (52::real)" by simp
  then have "2 powr of_int (double_exponent x)
           = 2 powr (of_int (double_exponent x) - 52) * 2 powr (52::real)"
    by (metis powr_add)
  then show "2 powr of_int (double_exponent x) = 2 ^ 52 * double_ulp x"
    unfolding double_ulp_def by simp
qed

lemma fl_nonneg:
  assumes "0 \<le> x"
  shows "0 \<le> fl x"
proof (cases "x = 0")
  case True
  then show ?thesis by (simp add: fl_def)
next
  case False
  have "0 \<le> x / double_ulp x" using assms double_ulp_pos [of x] by simp
  then have "round_even (of_int 0) \<le> round_even (x / double_ulp x)"
    by (intro round_even_mono) simp
  then have "0 \<le> round_even (x / double_ulp x)" by (simp only: round_even_of_int)
  then show ?thesis using False double_ulp_pos [of x] by (simp add: fl_def)
qed

lemma round_even_le_numeral:
  "y \<le> of_int n \<Longrightarrow> round_even y \<le> n"
  using round_even_mono [of y "of_int n"] by (simp only: round_even_of_int)

lemma round_even_ge_numeral:
  "of_int n \<le> y \<Longrightarrow> n \<le> round_even y"
  using round_even_mono [of "of_int n" y] by (simp only: round_even_of_int)

lemma round_even_upper:
  assumes "0 < x"
  shows "round_even (x / double_ulp x) \<le> 2 ^ 53"
proof -
  have "x < 2 ^ 53 * double_ulp x"
    using double_exponent_upper [OF assms] by (simp only: double_ulp_scale)
  then have "x / double_ulp x \<le> of_int (2 ^ 53)"
    using double_ulp_pos [of x] by (simp add: pos_divide_le_eq)
  then show ?thesis by (rule round_even_le_numeral)
qed

lemma fl_upper:
  assumes "0 < x"
  shows "fl x \<le> 2 powr (of_int (double_exponent x) + 1)"
proof -
  have "of_int (round_even (x / double_ulp x)) \<le> (2 ^ 53 :: real)"
    using round_even_upper [OF assms] by (metis of_int_le_iff of_int_numeral of_int_power)
  then have "of_int (round_even (x / double_ulp x)) * double_ulp x \<le> 2 ^ 53 * double_ulp x"
    using double_ulp_pos [of x] by (simp only: mult_le_cancel_right_pos)
  then show ?thesis using assms by (simp add: fl_def double_ulp_scale)
qed

lemma fl_lower:
  assumes "0 < x" and "2 powr of_int (double_exponent x) \<le> x"
  shows "2 powr of_int (double_exponent x) \<le> fl x"
proof -
  have "2 ^ 52 * double_ulp x \<le> x" using assms(2) by (simp only: double_ulp_scale)
  then have "of_int (2 ^ 52) \<le> x / double_ulp x"
    using double_ulp_pos [of x] by (simp add: pos_le_divide_eq)
  then have "2 ^ 52 \<le> round_even (x / double_ulp x)" by (rule round_even_ge_numeral)
  then have "(2 ^ 52 :: real) \<le> of_int (round_even (x / double_ulp x))"
    by (metis of_int_le_iff of_int_numeral of_int_power)
  then have "2 ^ 52 * double_ulp x \<le> of_int (round_even (x / double_ulp x)) * double_ulp x"
    using double_ulp_pos [of x] by (simp only: mult_le_cancel_right_pos)
  then show ?thesis using assms(1) by (simp add: fl_def double_ulp_scale)
qed

text \<open>Rounding is monotone on the non-negative numbers.\<close>

lemma fl_mono:
  assumes "0 \<le> x" and "x \<le> y"
  shows "fl x \<le> fl y"
proof (cases "x = 0")
  case True
  then show ?thesis using fl_nonneg [of y] assms by (simp add: fl_def)
next
  case False
  with assms have x: "0 < x" and y: "0 < y" by simp_all
  have le: "double_exponent x \<le> double_exponent y"
    using x assms(2) by (rule double_exponent_mono)
  show ?thesis
  proof (cases "double_exponent x = double_exponent y")
    case True
    then have u: "double_ulp x = double_ulp y" by (simp add: double_ulp_def)
    have "x / double_ulp y \<le> y / double_ulp y"
      using assms(2) double_ulp_pos [of y] by (simp add: divide_right_mono)
    then have "round_even (x / double_ulp y) \<le> round_even (y / double_ulp y)"
      by (rule round_even_mono)
    then have "of_int (round_even (x / double_ulp y)) * double_ulp y
             \<le> of_int (round_even (y / double_ulp y)) * double_ulp y"
      using double_ulp_pos [of y] by (simp only: mult_le_cancel_right_pos of_int_le_iff)
    then show ?thesis using x y by (simp add: fl_def u)
  next
    case False
    with le have lt: "double_exponent x + 1 \<le> double_exponent y" by simp
    then have normal: "- 1022 < double_exponent y"
      using double_exponent_ge [of x] by linarith
    have "fl x \<le> 2 powr (of_int (double_exponent x) + 1)" using x by (rule fl_upper)
    also have "\<dots> \<le> 2 powr of_int (double_exponent y)"
    proof -
      have "real_of_int (double_exponent x) + 1 \<le> real_of_int (double_exponent y)"
        using lt by linarith
      then show ?thesis by simp
    qed
    also have "\<dots> \<le> fl y"
      using y double_exponent_lower [OF y normal] by (rule fl_lower)
    finally show ?thesis .
  qed
qed

text \<open>The result of a rounding is a double: rounding it again changes nothing.\<close>

lemma fl_idem:
  assumes "0 \<le> x"
  shows "fl (fl x) = fl x"
proof (cases "x = 0")
  case True
  then show ?thesis by (simp add: fl_def)
next
  case False
  with assms have x: "0 < x" by simp
  define n where "n = round_even (x / double_ulp x)"
  define e where "e = double_exponent x"
  have y: "fl x = of_int n * 2 powr (of_int e - 52)"
    using x by (simp add: fl_def n_def e_def double_ulp_def)
  have n53: "n \<le> 2 ^ 53" unfolding n_def using x by (rule round_even_upper)
  have n0: "0 \<le> n"
    unfolding n_def using x double_ulp_pos [of x] by (intro round_even_ge_numeral) simp
  have e: "- 1022 \<le> e" by (simp add: e_def double_exponent_ge)
  consider "n = 0" | "0 < n" "n < 2 ^ 53" | "n = 2 ^ 53" using n0 n53 by linarith
  then show ?thesis
  proof cases
    case 1
    then have z: "fl x = 0" by (simp add: y)
    show ?thesis unfolding z by (simp add: fl_def)
  next
    case 2
    have pos: "0 < fl x" using 2(1) by (simp add: y)
    have "real_of_int n < 2 ^ 53" using 2(2) by (metis of_int_less_iff of_int_numeral of_int_power)
    then have "fl x < 2 ^ 53 * double_ulp x"
      unfolding y e_def double_ulp_def by simp
    then have "fl x < 2 powr (of_int e + 1)" by (simp only: double_ulp_scale e_def)
    then have "double_exponent (fl x) \<le> e" using pos e by (intro double_exponent_le)
    with pos y show ?thesis by (rule fl_fixed)
  next
    case 3
    have "fl x = 2 ^ 53 * double_ulp x"
      unfolding y e_def double_ulp_def 3 by simp
    then have p: "fl x = 2 powr (of_int e + 1)" by (simp only: double_ulp_scale e_def)
    have pos: "0 < fl x" by (simp add: p)
    have y': "fl x = of_int (2 ^ 52) * 2 powr (of_int (e + 1) - 52)"
    proof -
      have "real_of_int e + 1 = (real_of_int (e + 1) - 52) + (52::real)" by simp
      then have "2 powr (of_int e + 1) = 2 powr (of_int (e + 1) - 52) * 2 powr (52::real)"
        by (metis powr_add)
      then show ?thesis unfolding p by simp
    qed
    have "fl x < 2 powr (of_int (e + 1) + 1)" unfolding p by simp
    then have "double_exponent (fl x) \<le> e + 1" using pos e by (intro double_exponent_le) simp_all
    with pos y' show ?thesis by (rule fl_fixed)
  qed
qed

text \<open>Dyadic fractions with a numerator below \<open>2 ^ 53\<close> are doubles.\<close>

lemma fl_dyadic:
  assumes "0 < m" and "m < 2 ^ 53" and "k \<le> 1074"
  shows "fl (of_int m / 2 ^ k) = of_int m / 2 ^ k"
proof -
  define a where "a = 52 - int k"
  define y :: real where "y = of_int m / 2 ^ k"
  have pos: "0 < y" using assms(1) by (simp add: y_def)
  have pk: "(2::real) powr (- real k) = 1 / 2 ^ k"
    by (simp add: powr_minus powr_realpow inverse_eq_divide)
  have "real_of_int a - 52 = - real k" by (simp add: a_def)
  then have eq: "y = of_int m * 2 powr (of_int a - 52)"
    by (simp add: y_def pk)
  have "real_of_int m < 2 ^ 53" using assms(2) by (metis of_int_less_iff of_int_numeral of_int_power)
  then have "y < 2 ^ 53 / 2 ^ k" by (simp add: y_def divide_strict_right_mono)
  also have "\<dots> = 2 powr (of_int a + 1)"
  proof -
    have "real_of_int a + 1 = 53 + (- real k)" by (simp add: a_def)
    then have "2 powr (of_int a + 1) = 2 powr (53::real) * 2 powr (- real k)"
      by (metis powr_add)
    then show ?thesis by (simp add: pk)
  qed
  finally have "y < 2 powr (of_int a + 1)" .
  moreover have "- 1022 \<le> a" using assms(3) by (simp add: a_def)
  ultimately have "double_exponent y \<le> a" using pos by (intro double_exponent_le)
  with pos eq have "fl y = y" by (rule fl_fixed)
  then show ?thesis by (simp add: y_def)
qed

text \<open>The rounding of a number of known binary exponent, for evaluation.\<close>

lemma fl_eval:
  assumes "2 ^ a \<le> x" and "x < 2 * 2 ^ a"
  shows "fl x = of_int (round_even (x * 2 ^ 52 / 2 ^ a)) * 2 ^ a / 2 ^ 52"
proof -
  have "(0::real) < 2 ^ a" by simp
  with assms(1) have pos: "0 < x" by linarith
  have lo: "real a \<le> log 2 x"
    using assms(1) pos by (simp add: le_log_iff powr_realpow)
  have "x < 2 powr (real a + 1)"
    using assms(2) by (simp add: powr_add powr_realpow)
  then have hi: "log 2 x < real a + 1"
    using pos by (simp add: log_less_iff)
  from lo hi have "\<lfloor>log 2 x\<rfloor> = int a" by linarith
  then have e: "double_exponent x = int a"
    using pos by (simp add: double_exponent_def)
  have u: "double_ulp x = 2 ^ a / 2 ^ 52"
    unfolding double_ulp_def e by (simp add: powr_diff powr_realpow)
  show ?thesis
    using pos by (simp add: fl_def u)
qed

text \<open>The doubles that the evaluated runs below pass through.\<close>

lemma fl_values:
  "fl 5 = 5" "fl 75 = 75" "fl 100 = 100"
  "fl (15 / 2) = 15 / 2" "fl (75 / 2) = 75 / 2" "fl (225 / 2) = 225 / 2"
  "fl (75 / 4) = 75 / 4" "fl (225 / 4) = 225 / 4" "fl (375 / 4) = 375 / 4"
  "fl (75 / 8) = 75 / 8" "fl (225 / 8) = 225 / 8" "fl (375 / 8) = 375 / 8"
  "fl (525 / 8) = 525 / 8" "fl (675 / 8) = 675 / 8" "fl (825 / 8) = 825 / 8"
  "fl (225 / 16) = 225 / 16" "fl (675 / 16) = 675 / 16" "fl (1125 / 16) = 1125 / 16"
  "fl (1575 / 16) = 1575 / 16"
  using fl_dyadic [of 5 0] fl_dyadic [of 75 0] fl_dyadic [of 100 0]
    fl_dyadic [of 15 1] fl_dyadic [of 75 1] fl_dyadic [of 225 1]
    fl_dyadic [of 75 2] fl_dyadic [of 225 2] fl_dyadic [of 375 2]
    fl_dyadic [of 75 3] fl_dyadic [of 225 3] fl_dyadic [of 375 3]
    fl_dyadic [of 525 3] fl_dyadic [of 675 3] fl_dyadic [of 825 3]
    fl_dyadic [of 225 4] fl_dyadic [of 675 4] fl_dyadic [of 1125 4]
    fl_dyadic [of 1575 4]
  by simp_all

lemma fl_zero: "fl 0 = 0"
  by (simp add: fl_def)

lemmas format_eval =
  formatFileSize_def floor_log_k.simps toFixed2_def parseFloat_string_def
  sizes_at_def sizes_def string_of_nat.simps digit_char_def

lemmas translation_eval =
  translation_run_def newTranslationManager_def languageOptions_def languageOptionClick_def
  updateTranslateButton_def set_has_def set_add_def set_delete_def startTranslation_def
  translationTick_def translation_interval_def startTranslation_resume_def
  showTranslationResults_def createTranslationOutput_def getLanguageData_def languages_def
  toLowerCase_def lower_char_def translationDownloadClick_def handleTranslationDownload_def
  translationFilename_def showNotification_def Let_def translationFilesPicked_def
  handleFileSelection_def validateFile_def allowedAudioTypes_def fl_values fl_zero

text \<open>A run of events, one event at a time.\<close>

lemma batch_run_snoc: "batch_run (events @ [e]) = batch_step (batch_run events) e"
  by (simp add: batch_run_def)

lemma translation_run_snoc:
  "translation_run (events @ [e]) = translation_step (translation_run events) e"
  by (simp add: translation_run_def)

subsection \<open>Validation and size formatting\<close>

lemma validateFile_errors:
  "errors (validateFile file allowedTypes maxSize) =
     (if file_type file \<notin> set allowedTypes
      then [''File type not supported. Allowed types: '' @ join '', '' allowedTypes] else []) @
     (if file_size file > maxSize
      then [''File too large. Maximum size: '' @ formatFileSize maxSize] else [])"
  by (simp add: validateFile_def Let_def)

lemma validateFile_isValid:
  "isValid (validateFile file allowedTypes maxSize) =
     (file_type file \<in> set allowedTypes \<and> file_size file \<le> maxSize)"
  by (auto simp: validateFile_def Let_def)

lemma formatFileSize_100MB: "formatFileSize (100 * 1024 * 1024) = ''100 MB''"
  by (simp add: format_eval)

lemma formatFileSize_examples:
  "formatFileSize 1023 = ''1023 Bytes''"
  "formatFileSize 1536 = ''1.5 KB''"
  "formatFileSize 1234567 = ''1.18 MB''"
  "formatFileSize (50 * 1024 * 1024) = ''50 MB''"
  by (simp_all add: format_eval)

text \<open>The unit index is the base-1024 order of magnitude of the size.\<close>

lemma floor_log_k_bounds:
  "0 < bytes \<Longrightarrow> 1024 ^ floor_log_k bytes \<le> bytes \<and> bytes < 1024 ^ Suc (floor_log_k bytes)"
proof (induction bytes rule: floor_log_k.induct)
  case (1 bytes)
  show ?case
  proof (cases "bytes < 1024")
    case True
    with "1.prems" show ?thesis by (simp add: floor_log_k.simps)
  next
    case False
    then have pos: "0 < bytes div 1024" by (simp add: div_greater_zero_iff)
    from "1.IH"[OF False pos]
    have ih: "1024 ^ floor_log_k (bytes div 1024) \<le> bytes div 1024"
      "bytes div 1024 < 1024 ^ Suc (floor_log_k (bytes div 1024))" by simp_all
    have eq: "floor_log_k bytes = Suc (floor_log_k (bytes div 1024))"
      using False by (subst floor_log_k.simps) simp
    have "1024 * 1024 ^ floor_log_k (bytes div 1024) \<le> 1024 * (bytes div 1024)"
      using ih(1) by simp
    also have "\<dots> \<le> bytes" by simp
    finally have lo: "1024 ^ floor_log_k bytes \<le> bytes" by (simp add: eq)
    have "bytes < 1024 * (bytes div 1024 + 1)"
      by (metis add.commute dividend_less_times_div mult_Suc_right plus_1_eq_Suc zero_less_numeral)
    also have "\<dots> \<le> 1024 * 1024 ^ Suc (floor_log_k (bytes div 1024))"
      using ih(2) by (simp del: power_Suc)
    finally have hi: "bytes < 1024 ^ Suc (floor_log_k bytes)" by (simp add: eq)
    from lo hi show ?thesis by blast
  qed
qed

text \<open>The printed number is the quotient rounded to the nearest hundredth.\<close>

lemma toFixed2_nearest:
  "\<bar>real (toFixed2 bytes i) / 100 - real bytes / 1024 ^ i\<bar> \<le> 1 / 200"
proof -
  define d :: nat where "d = 2 * 1024 ^ i"
  define a :: nat where "a = 200 * bytes + 1024 ^ i"
  have dpos: "0 < d" by (simp add: d_def)
  have h: "toFixed2 bytes i = a div d" by (simp add: toFixed2_def a_def d_def)
  have "a = d * (a div d) + a mod d" by simp
  then have ra: "real a = real d * real (a div d) + real (a mod d)"
    by (metis of_nat_add of_nat_mult)
  have m: "real (a mod d) < real d" using dpos by simp
  have m0: "0 \<le> real (a mod d)" by simp
  have rd: "real d = 2 * 1024 ^ i" by (simp add: d_def)
  have ra2: "real a = 200 * real bytes + 1024 ^ i" by (simp add: a_def)
  have p: "(0::real) < 1024 ^ i" by simp
  define q where "q = real (a div d)"
  define x where "x = real bytes / 1024 ^ i"
  have xb: "real bytes = x * 1024 ^ i" by (simp add: x_def)
  from ra ra2 rd have "200 * x * 1024 ^ i + 1024 ^ i = 2 * 1024 ^ i * q + real (a mod d)"
    by (simp add: xb q_def)
  then have e: "real (a mod d) = (200 * x + 1 - 2 * q) * 1024 ^ i" by (simp add: algebra_simps)
  from m0 e p have l1: "0 \<le> 200 * x + 1 - 2 * q"
    by (simp add: zero_le_mult_iff)
  from m e rd p have l2: "200 * x + 1 - 2 * q < 2"
    by simp
  from l1 l2 have "\<bar>q / 100 - x\<bar> \<le> 1 / 200" by linarith
  then show ?thesis by (simp add: h q_def x_def)
qed

text \<open>
  Claim C5, as the code has it. A file whose size strictly exceeds the maximum is
  invalid, and its errors include \<^verbatim>\<open>File too large. Maximum size: \<close> followed by
  \<^verbatim>\<open>formatFileSize\<close> of the maximum: the base-1024 formatting rounded to two
  decimals, printed without trailing zeros. Against the ceiling of 100 MB
  (104,857,600 bytes) the message is \<^verbatim>\<open>File too large. Maximum size: 100 MB\<close>.
  For a positive maximum the formatting is the number of hundredths nearest to the
  maximum divided by \<open>1024 ^ i\<close>, followed by the unit number \<open>i\<close>, where
  \<open>1024 ^ i \<le> maxSize < 1024 ^ (i + 1)\<close>.
\<close>

theorem validateFile_too_large:
  assumes "file_size file > maxSize"
  shows "\<not> isValid (validateFile file allowedTypes maxSize)
       \<and> (''File too large. Maximum size: '' @ formatFileSize maxSize)
           \<in> set (errors (validateFile file allowedTypes maxSize))
       \<and> (maxSize = 100 * 1024 * 1024 \<longrightarrow>
            ''File too large. Maximum size: 100 MB''
              \<in> set (errors (validateFile file allowedTypes maxSize)))
       \<and> (0 < maxSize \<longrightarrow>
            formatFileSize maxSize
              = parseFloat_string (toFixed2 maxSize (floor_log_k maxSize))
                @ '' '' @ sizes_at (floor_log_k maxSize)
            \<and> 1024 ^ floor_log_k maxSize \<le> maxSize
            \<and> maxSize < 1024 ^ Suc (floor_log_k maxSize)
            \<and> \<bar>real (toFixed2 maxSize (floor_log_k maxSize)) / 100
                 - real maxSize / 1024 ^ floor_log_k maxSize\<bar> \<le> 1 / 200)"
proof -
  have valid: "\<not> isValid (validateFile file allowedTypes maxSize)"
    using assms by (simp add: validateFile_isValid)
  have msg: "(''File too large. Maximum size: '' @ formatFileSize maxSize)
           \<in> set (errors (validateFile file allowedTypes maxSize))"
    using assms by (simp add: validateFile_errors)
  have "''File too large. Maximum size: 100 MB''
              \<in> set (errors (validateFile file allowedTypes maxSize))"
    if "maxSize = 100 * 1024 * 1024"
  proof -
    have "formatFileSize maxSize = ''100 MB''"
      unfolding that by (rule formatFileSize_100MB)
    with msg show ?thesis by simp
  qed
  moreover have "formatFileSize maxSize
              = parseFloat_string (toFixed2 maxSize (floor_log_k maxSize))
                @ '' '' @ sizes_at (floor_log_k maxSize)" if "0 < maxSize"
    using that by (simp add: formatFileSize_def Let_def)
  ultimately show ?thesis
    using valid msg floor_log_k_bounds [of maxSize]
      toFixed2_nearest [of maxSize "floor_log_k maxSize"]
    by blast
qed

text \<open>A file of 120 MB against the ceiling of 100 MB, evaluated.\<close>

theorem validateFile_too_large_witness:
  "file_size \<lparr> file_name = ''talk.mp3'', file_size = 120 * 1024 * 1024, file_type = ''audio/mpeg'' \<rparr>
     > 100 * 1024 * 1024
   \<and> validateFile \<lparr> file_name = ''talk.mp3'', file_size = 120 * 1024 * 1024, file_type = ''audio/mpeg'' \<rparr>
        allowedAudioTypes (100 * 1024 * 1024)
     = \<lparr> isValid = False, errors = [''File too large. Maximum size: 100 MB''] \<rparr>"
  using validateFile_too_large
    [of "100 * 1024 * 1024"
        "\<lparr> file_name = ''talk.mp3'', file_size = 120 * 1024 * 1024, file_type = ''audio/mpeg'' \<rparr>"
        allowedAudioTypes]
  by (simp add: validateFile_def allowedAudioTypes_def format_eval)

text \<open>
  The message with the two decimals written out, \<^verbatim>\<open>100.00 MB\<close>, is not among the
  errors of that file: \<^verbatim>\<open>parseFloat\<close> drops the trailing zeros of \<^verbatim>\<open>toFixed(2)\<close>.
\<close>

theorem validateFile_100MB_counterexample:
  "''File too large. Maximum size: 100.00 MB''
     \<notin> set (errors (validateFile
                 \<lparr> file_name = ''talk.mp3'', file_size = 120 * 1024 * 1024, file_type = ''audio/mpeg'' \<rparr>
                 allowedAudioTypes (100 * 1024 * 1024)))"
  by (simp add: validateFile_def allowedAudioTypes_def format_eval)

subsection \<open>Validation failures and the notifier\<close>

lemma batch_file_loop_flag:
  "batch_file_loop files (html, tot, hasErrors) = (html', tot', hasErrors') \<Longrightarrow>
   hasErrors' = (hasErrors \<or> (\<exists>f \<in> set files. \<not> isValid (validateFile f allowedAudioTypes (50 * 1024 * 1024))))"
  by (induction files arbitrary: html tot hasErrors) (auto simp: Let_def split: if_splits)

text \<open>The single-file path notifies every validation failure, with the joined error texts.\<close>

lemma handleFileSelection_failure_notified:
  "\<not> isValid (validateFile file allowedAudioTypes (100 * 1024 * 1024)) \<Longrightarrow>
   ui_notifications (handleFileSelection (file # files) ui)
     = ui_notifications ui
       @ [(join '', '' (errors (validateFile file allowedAudioTypes (100 * 1024 * 1024))), Error)]"
  by (simp add: handleFileSelection_def showNotification_def Let_def)

text \<open>
  The batch path shows at most one notification, the success one: a batch with an
  invalid file, with more than ten files or above the total size shows none.
\<close>

lemma handleBatchFileSelection_notifications:
  "bu_notifications (handleBatchFileSelection files ui) = bu_notifications ui
   \<or> bu_notifications (handleBatchFileSelection files ui)
       = bu_notifications ui @ [(string_of_nat (length files) @ '' files uploaded successfully!'', Success)]"
  by (auto simp: handleBatchFileSelection_def showNotification_def Let_def split: prod.splits)

lemma batch_invalid_file_not_notified:
  "f \<in> set files \<Longrightarrow> \<not> isValid (validateFile f allowedAudioTypes (50 * 1024 * 1024)) \<Longrightarrow>
   bu_notifications (handleBatchFileSelection files ui) = bu_notifications ui"
  by (auto simp: handleBatchFileSelection_def showNotification_def Let_def
           split: prod.splits dest!: batch_file_loop_flag)

lemma batch_too_many_files_not_notified:
  "length files > 10 \<Longrightarrow>
   bu_notifications (handleBatchFileSelection files ui) = bu_notifications ui
   \<and> PErr ''Maximum 10 files allowed'' \<in> set (bu_fileList (handleBatchFileSelection files ui))"
  by (auto simp: handleBatchFileSelection_def showNotification_def Let_def split: prod.splits)

text \<open>
  Claim C6 says that every validation failure, in the single-file path and in the batch
  path, emits a notification carrying the error text. An audio file of 120 MB is too
  large in both paths. Selected in a single-file upload area it is notified
  (\<^verbatim>\<open>File too large. Maximum size: 100 MB\<close>, of type error). Selected in the batch
  upload area the error is written into the file list and the process button is
  disabled, and no notification is shown.
\<close>

theorem batch_validation_failure_not_notified:
  "handleBatchFileSelection
     [\<lparr> file_name = ''talk.mp3'', file_size = 120 * 1024 * 1024, file_type = ''audio/mpeg'' \<rparr>]
     \<lparr> bu_fileList = [], bu_processDisabled = False, bu_notifications = [] \<rparr>
   = \<lparr> bu_fileList = [LiErr ''talk.mp3'' ''File too large. Maximum size: 50 MB''],
       bu_processDisabled = True,
       bu_notifications = [] \<rparr>
   \<and> handleFileSelection
     [\<lparr> file_name = ''talk.mp3'', file_size = 120 * 1024 * 1024, file_type = ''audio/mpeg'' \<rparr>]
     \<lparr> ui_fileInfo = None, ui_buttonDisabled = False, ui_notifications = [] \<rparr>
   = \<lparr> ui_fileInfo = Some (FileError ''File too large. Maximum size: 100 MB''),
       ui_buttonDisabled = True,
       ui_notifications = [(''File too large. Maximum size: 100 MB'', Error)] \<rparr>"
  by (simp add: handleBatchFileSelection_def handleFileSelection_def validateFile_def
        allowedAudioTypes_def showNotification_def Let_def format_eval)

subsection \<open>The batch run\<close>

lemma batch_closure_inv_init:
  "1 \<le> fileCount \<Longrightarrow> batch_closure_inv fileCount (simulateBatchProcess fileCount)"
  by (simp add: batch_closure_inv_def simulateBatchProcess_def)

lemma batch_closure_inv_step:
  "batch_closure_inv fileCount c \<Longrightarrow> batch_closure_inv fileCount (fst (batch_interval r c))"
  by (auto simp: batch_closure_inv_def batch_interval_def Let_def)

lemma simulateBatchRun_snoc:
  "simulateBatchRun fileCount (rs @ [r]) =
     (case simulateBatchRun fileCount rs of
        (c, resolved) \<Rightarrow> if resolved then (c, resolved) else batch_interval r c)"
  by (simp add: simulateBatchRun_def split: prod.splits)

lemma batch_closure_inv_run:
  "1 \<le> fileCount \<Longrightarrow> batch_closure_inv fileCount (fst (simulateBatchRun fileCount rs))"
proof (induction rs rule: rev_induct)
  case Nil
  then show ?case by (simp add: simulateBatchRun_def batch_closure_inv_init)
next
  case (snoc r rs)
  then have "batch_closure_inv fileCount (fst (simulateBatchRun fileCount rs))" by simp
  then show ?case
    using batch_closure_inv_step [of fileCount "fst (simulateBatchRun fileCount rs)" r]
    by (cases "simulateBatchRun fileCount rs") (auto simp: simulateBatchRun_snoc)
qed

lemma batch_interval_progress:
  assumes inv: "batch_closure_inv fileCount c" and r: "0 \<le> r" "r \<le> 5"
  shows "progress (fst (batch_interval r c))
           = real (currentFile c) / real (min fileCount 10) * 100
             + (r * 20) / real (min fileCount 10)"
    and "0 \<le> progress (fst (batch_interval r c))"
    and "progress (fst (batch_interval r c)) \<le> 100"
    and "progress (fst (batch_interval r c)) = 100
           \<Longrightarrow> currentFile c + 1 = min fileCount 10 \<and> r * 20 = 100"
    and "r < 1 \<Longrightarrow> progress (fst (batch_interval r c)) < 100"
    and "r < 1 \<Longrightarrow> \<not> snd (batch_interval r c)"
    and "r < 1 \<Longrightarrow> currentFile (fst (batch_interval r c)) = currentFile c"
proof -
  define M where "M = real (min fileCount 10)"
  define k where "k = real (currentFile c)"
  from inv have ppf: "progressPerFile c = 100 / M"
    and lt: "currentFile c < min fileCount 10"
    by (simp_all add: batch_closure_inv_def M_def)
  from lt have kM: "k + 1 \<le> M" unfolding k_def M_def
    by (metis Suc_eq_plus1 Suc_leI of_nat_1 of_nat_add of_nat_mono)
  have k0: "0 \<le> k" by (simp add: k_def)
  have M0: "0 < M" using kM k0 by linarith
  define raw where
    "raw = real (currentFile c) * progressPerFile c + r * 20 * progressPerFile c / 100"
  have raw_eq: "raw = (k * 100 + r * 20) / M"
    by (simp add: raw_def ppf k_def add_divide_distrib)
  have raw_le: "raw \<le> 100"
  proof -
    have "k * 100 + r * 20 \<le> 100 * M" using kM r by linarith
    then show ?thesis unfolding raw_eq using M0 by (simp add: pos_divide_le_eq)
  qed
  have raw_ge: "0 \<le> raw"
    unfolding raw_eq using M0 k0 r by simp
  have p: "progress (fst (batch_interval r c)) = (if raw \<ge> 100 then 100 else raw)"
    unfolding raw_def by (simp add: batch_interval_def Let_def)
  with raw_le have p': "progress (fst (batch_interval r c)) = raw" by auto
  show "progress (fst (batch_interval r c))
           = real (currentFile c) / real (min fileCount 10) * 100
             + (r * 20) / real (min fileCount 10)"
    unfolding p' raw_eq k_def M_def by (simp add: add_divide_distrib)
  show "0 \<le> progress (fst (batch_interval r c))" using p' raw_ge by simp
  show "progress (fst (batch_interval r c)) \<le> 100" using p' raw_le by simp
  show "currentFile c + 1 = min fileCount 10 \<and> r * 20 = 100"
    if "progress (fst (batch_interval r c)) = 100"
  proof -
    from that p' have "(k * 100 + r * 20) / M = 100" by (simp add: raw_eq)
    then have e: "k * 100 + r * 20 = 100 * M" using M0 by (simp add: field_simps)
    with kM r have "k + 1 = M" "r * 20 = 100" by linarith+
    then show ?thesis unfolding k_def M_def
      by (metis of_nat_1 of_nat_add of_nat_eq_iff)
  qed
  have raw_lt: "raw < 100" if "r < 1"
  proof -
    have "k * 100 + r * 20 < 100 * M" using kM that by linarith
    then show ?thesis unfolding raw_eq using M0 by (simp add: pos_divide_less_eq)
  qed
  show "progress (fst (batch_interval r c)) < 100" if "r < 1"
    using p' raw_lt [OF that] by simp
  show "\<not> snd (batch_interval r c)" if "r < 1"
    using raw_lt [OF that] unfolding raw_def by (simp add: batch_interval_def Let_def)
  show "currentFile (fst (batch_interval r c)) = currentFile c" if "r < 1"
    using that by (simp add: batch_interval_def Let_def)
qed

text \<open>
  With draws of \<^verbatim>\<open>Math.random()\<close> the file progress \<open>r * 20\<close> stays below 20: the
  promise never resolves and the file pointer never leaves the first file.
\<close>

lemma simulateBatchRun_unit_draws:
  assumes "1 \<le> fileCount" and "\<forall>r \<in> set rs. 0 \<le> r \<and> r < 1"
  shows "\<not> snd (simulateBatchRun fileCount rs)
       \<and> currentFile (fst (simulateBatchRun fileCount rs)) = 0
       \<and> progress (fst (simulateBatchRun fileCount rs)) < 20"
  using assms(2)
proof (induction rs rule: rev_induct)
  case Nil
  show ?case by (simp add: simulateBatchRun_def simulateBatchProcess_def)
next
  case (snoc r rs)
  obtain c where c: "simulateBatchRun fileCount rs = (c, False)" and cf: "currentFile c = 0"
    using snoc by (cases "simulateBatchRun fileCount rs") auto
  have inv: "batch_closure_inv fileCount c"
    using batch_closure_inv_run [OF assms(1), of rs] c by simp
  from snoc.prems have r: "0 \<le> r" "r < 1" by simp_all
  then have r5: "r \<le> 5" by simp
  have run: "simulateBatchRun fileCount (rs @ [r]) = batch_interval r c"
    by (simp add: simulateBatchRun_snoc c)
  have "progress (fst (batch_interval r c))
           = real (currentFile c) / real (min fileCount 10) * 100
             + (r * 20) / real (min fileCount 10)"
    by (rule batch_interval_progress(1) [OF inv r(1) r5])
  then have "progress (fst (batch_interval r c)) = (r * 20) / real (min fileCount 10)"
    by (simp add: cf)
  also have "\<dots> \<le> r * 20"
  proof -
    have "1 \<le> real (min fileCount 10)" using assms(1) by simp
    then have "r * 20 / real (min fileCount 10) \<le> r * 20 / 1"
      using r(1) by (intro divide_left_mono) simp_all
    then show ?thesis by simp
  qed
  also have "\<dots> < 20" using r(2) by simp
  finally have lt: "progress (fst (batch_interval r c)) < 20" .
  show ?case
    unfolding run
    using batch_interval_progress(6,7) [OF inv r(1) r5 r(2)] cf lt by simp
qed

text \<open>While the promise is unresolved, the manager only mirrors the closure on the page.\<close>

lemma batch_ticks_follow_closure:
  assumes "\<not> b_isProcessing s" and "b_files s \<noteq> []"
    and "\<not> snd (simulateBatchRun (length (b_files s)) rs)"
  shows "foldl (\<lambda>s r. batchTick r s) (processBatch s) rs
         = (processBatch s)
             \<lparr> b_interval := Some (fst (simulateBatchRun (length (b_files s)) rs), b_operation s),
               b_barWidth := (if rs = [] then b_barWidth s
                              else progress (fst (simulateBatchRun (length (b_files s)) rs))),
               b_percentage := (if rs = [] then b_percentage s
                                else round (progress (fst (simulateBatchRun (length (b_files s)) rs)))) \<rparr>"
  using assms(3)
proof (induction rs rule: rev_induct)
  case Nil
  show ?case using assms(1,2) by (simp add: processBatch_def simulateBatchRun_def)
next
  case (snoc r rs)
  obtain c where c: "simulateBatchRun (length (b_files s)) rs = (c, False)"
    using snoc.prems by (cases "simulateBatchRun (length (b_files s)) rs")
      (auto simp: simulateBatchRun_snoc split: if_splits)
  obtain c' where c': "batch_interval r c = (c', False)"
    using snoc.prems c by (cases "batch_interval r c") (auto simp: simulateBatchRun_snoc)
  have ih: "foldl (\<lambda>s r. batchTick r s) (processBatch s) rs
         = (processBatch s)
             \<lparr> b_interval := Some (c, b_operation s),
               b_barWidth := (if rs = [] then b_barWidth s else progress c),
               b_percentage := (if rs = [] then b_percentage s else round (progress c)) \<rparr>"
    using snoc.IH c by simp
  have step: "foldl (\<lambda>s r. batchTick r s) (processBatch s) (rs @ [r])
          = batchTick r (foldl (\<lambda>s r. batchTick r s) (processBatch s) rs)"
    by simp
  show ?case
    unfolding step ih
    by (simp add: batchTick_def c' simulateBatchRun_snoc c)
qed

text \<open>
  Claim C1 says that every non-empty batch run terminates: the file pointer advances
  when the current file's progress reaches 95, every file is passed, the batch progress
  reaches 100 and \<^verbatim>\<open>isProcessing\<close> goes back to false. In the code the file progress
  of a tick is \<^verbatim>\<open>Math.random() * 20\<close>, which never reaches 95. So after
  \<^verbatim>\<open>processBatch\<close> has started a run on a non-empty file input, whatever the number
  of ticks and their draws: \<^verbatim>\<open>isProcessing\<close> is still true, the interval is still
  running with the file pointer on the first file and the progress below 20, no
  notification was shown and no results were rendered.
\<close>

theorem batch_run_never_completes:
  assumes "\<not> b_isProcessing s" and "b_files s \<noteq> []"
    and "\<forall>r \<in> set rs. 0 \<le> r \<and> r < 1"
  shows "b_isProcessing (foldl (\<lambda>s r. batchTick r s) (processBatch s) rs)
       \<and> (\<exists>c. b_interval (foldl (\<lambda>s r. batchTick r s) (processBatch s) rs)
                  = Some (c, b_operation s)
               \<and> currentFile c = 0 \<and> progress c < 20)
       \<and> b_notifications (foldl (\<lambda>s r. batchTick r s) (processBatch s) rs) = b_notifications s
       \<and> batchOutputs (foldl (\<lambda>s r. batchTick r s) (processBatch s) rs) = batchOutputs s"
proof -
  have n: "1 \<le> length (b_files s)" using assms(2) by (cases "b_files s") simp_all
  note run = simulateBatchRun_unit_draws [OF n assms(3)]
  then have nr: "\<not> snd (simulateBatchRun (length (b_files s)) rs)" by simp
  show ?thesis
    unfolding batch_ticks_follow_closure [OF assms(1,2) nr]
    using run assms(1,2) by (simp add: processBatch_def)
qed

text \<open>One file picked, the process button clicked, three ticks with the draw 0.99.\<close>

theorem batch_run_never_completes_witness:
  "\<not> b_isProcessing (batch_run [FilesPicked [\<lparr> file_name = ''a.mp3'', file_size = 1024, file_type = ''audio/mpeg'' \<rparr>]])
   \<and> b_files (batch_run [FilesPicked [\<lparr> file_name = ''a.mp3'', file_size = 1024, file_type = ''audio/mpeg'' \<rparr>]]) \<noteq> []
   \<and> b_isProcessing
       (batch_run [FilesPicked [\<lparr> file_name = ''a.mp3'', file_size = 1024, file_type = ''audio/mpeg'' \<rparr>],
                   ProcessClick, IntervalTick 0.99, IntervalTick 0.99, IntervalTick 0.99])
   \<and> b_barWidth
       (batch_run [FilesPicked [\<lparr> file_name = ''a.mp3'', file_size = 1024, file_type = ''audio/mpeg'' \<rparr>],
                   ProcessClick, IntervalTick 0.99, IntervalTick 0.99, IntervalTick 0.99]) = 19.8"
  using batch_run_never_completes
    [of "batch_run [FilesPicked [\<lparr> file_name = ''a.mp3'', file_size = 1024, file_type = ''audio/mpeg'' \<rparr>]]"
        "[0.99, 0.99, 0.99]"]
  by (simp add: batch_run_def newBatchManager_def filesPicked_def handleBatchFileSelection_def
        validateFile_def allowedAudioTypes_def showNotification_def format_eval
        processBatch_def batchTick_def batch_interval_def simulateBatchProcess_def Let_def)









subsection \<open>Progress of a single job\<close>

lemma simulateTranslationProcess_snoc:
  "simulateTranslationProcess (rs @ [r]) =
     (case simulateTranslationProcess rs of
        (p, resolved) \<Rightarrow>
          if resolved then (p, resolved) else translation_interval r p)"
  by (simp add: simulateTranslationProcess_def split: prod.splits)

lemma simulateTranscriptionProcess_snoc:
  "simulateTranscriptionProcess (rs @ [r]) =
     (case simulateTranscriptionProcess rs of
        (p, resolved) \<Rightarrow>
          if resolved then (p, resolved) else transcription_interval r p)"
  by (simp add: simulateTranscriptionProcess_def split: prod.splits)

lemma running_total_snoc:
  "running_total f (rs @ [r]) = fl (running_total f rs + fl (r * f))"
  by (simp add: running_total_def)

text \<open>The running total of non-negative increments is a non-negative double.\<close>

lemma running_total_double:
  assumes "\<forall>r \<in> set rs. 0 \<le> r" and "0 \<le> f"
  shows "0 \<le> running_total f rs \<and> fl (running_total f rs) = running_total f rs"
  using assms(1)
proof (induction rs rule: rev_induct)
  case Nil
  show ?case by (simp add: running_total_def fl_zero)
next
  case (snoc r rs)
  then have t: "0 \<le> running_total f rs" and r: "0 \<le> r" by simp_all
  have "0 \<le> r * f" using r assms(2) by simp
  then have "0 \<le> fl (r * f)" by (rule fl_nonneg)
  with t have arg: "0 \<le> running_total f rs + fl (r * f)" by simp
  show ?case
    unfolding running_total_snoc using fl_nonneg [OF arg] fl_idem [OF arg] by simp
qed

text \<open>It never decreases: adding a non-negative double to a double rounds to no less.\<close>

lemma running_total_step:
  assumes "\<forall>r \<in> set rs. 0 \<le> r" and "0 \<le> r" and "0 \<le> f"
  shows "running_total f rs \<le> running_total f (rs @ [r])"
proof -
  note t = running_total_double [OF assms(1,3)]
  have "0 \<le> r * f" using assms(2,3) by simp
  then have "0 \<le> fl (r * f)" by (rule fl_nonneg)
  then have "running_total f rs \<le> running_total f rs + fl (r * f)" by simp
  with t have "fl (running_total f rs) \<le> fl (running_total f rs + fl (r * f))"
    by (intro fl_mono) simp_all
  with t show ?thesis by (simp add: running_total_snoc)
qed

lemma running_total_append:
  assumes "\<forall>r \<in> set (rs @ qs). 0 \<le> r" and "0 \<le> f"
  shows "running_total f rs \<le> running_total f (rs @ qs)"
  using assms(1)
proof (induction qs rule: rev_induct)
  case Nil
  show ?case by simp
next
  case (snoc q qs)
  then have "running_total f rs \<le> running_total f (rs @ qs)" by simp
  also have "\<dots> \<le> running_total f ((rs @ qs) @ [q])"
    using snoc.prems assms(2) by (intro running_total_step) simp_all
  finally show ?case by simp
qed

lemma running_total_take_mono:
  assumes "\<forall>r \<in> set rs. 0 \<le> r" and "0 \<le> f" and "j \<le> k"
  shows "running_total f (take j rs) \<le> running_total f (take k rs)"
proof -
  have split: "take k rs = take j rs @ drop j (take k rs)"
    using assms(3) by (metis append_take_drop_id min.absorb_iff2 take_take min.commute)
  have "\<forall>r \<in> set (take k rs). 0 \<le> r"
    using assms(1) by (meson in_set_takeD)
  then have "\<forall>r \<in> set (take j rs @ drop j (take k rs)). 0 \<le> r"
    using split by simp
  then have "running_total f (take j rs) \<le> running_total f (take j rs @ drop j (take k rs))"
    using assms(2) by (rule running_total_append)
  then show ?thesis using split by simp
qed

text \<open>
  After any ticks with non-negative draws the progress of the closure is the running
  total capped at 100, and the promise has resolved exactly if the running total has
  reached 100.
\<close>

lemma simulateTranslationProcess_total:
  "\<forall>r \<in> set rs. 0 \<le> r \<Longrightarrow>
   simulateTranslationProcess rs = (min 100 (running_total 10 rs), 100 \<le> running_total 10 rs)"
proof (induction rs rule: rev_induct)
  case Nil
  show ?case by (simp add: simulateTranslationProcess_def running_total_def)
next
  case (snoc r rs)
  then have ih: "simulateTranslationProcess rs
      = (min 100 (running_total 10 rs), 100 \<le> running_total 10 rs)"
    and rs: "\<forall>r \<in> set rs. 0 \<le> r" and r: "0 \<le> r" by simp_all
  have step: "running_total 10 rs \<le> running_total 10 (rs @ [r])"
    using rs r by (intro running_total_step) simp_all
  show ?case
  proof (cases "100 \<le> running_total 10 rs")
    case True
    with step show ?thesis by (simp add: simulateTranslationProcess_snoc ih)
  next
    case False
    then show ?thesis
      by (simp add: simulateTranslationProcess_snoc ih translation_interval_def Let_def
            running_total_snoc min_def)
  qed
qed

lemma simulateTranscriptionProcess_total:
  "\<forall>r \<in> set rs. 0 \<le> r \<Longrightarrow>
   simulateTranscriptionProcess rs = (min 100 (running_total 15 rs), 100 \<le> running_total 15 rs)"
proof (induction rs rule: rev_induct)
  case Nil
  show ?case by (simp add: simulateTranscriptionProcess_def running_total_def)
next
  case (snoc r rs)
  then have ih: "simulateTranscriptionProcess rs
      = (min 100 (running_total 15 rs), 100 \<le> running_total 15 rs)"
    and rs: "\<forall>r \<in> set rs. 0 \<le> r" and r: "0 \<le> r" by simp_all
  have step: "running_total 15 rs \<le> running_total 15 (rs @ [r])"
    using rs r by (intro running_total_step) simp_all
  show ?case
  proof (cases "100 \<le> running_total 15 rs")
    case True
    with step show ?thesis by (simp add: simulateTranscriptionProcess_snoc ih)
  next
    case False
    then show ?thesis
      by (simp add: simulateTranscriptionProcess_snoc ih transcription_interval_def Let_def
            running_total_snoc min_def)
  qed
qed

text \<open>The page mirrors the closure: what one tick does to a manager whose interval runs.\<close>

lemma translationTick_mirrors_interval:
  "tl_interval s = Some p \<Longrightarrow>
   tl_barWidth (translationTick r s) = fst (translation_interval r p)
   \<and> tl_percentage (translationTick r s) = round (fst (translation_interval r p))
   \<and> (tl_interval (translationTick r s) = None) = snd (translation_interval r p)
   \<and> tl_isProcessing (translationTick r s) = (tl_isProcessing s \<and> \<not> snd (translation_interval r p))"
  by (cases "translation_interval r p")
     (simp add: translationTick_def startTranslation_resume_def showTranslationResults_def Let_def)

lemma transcriptionTick_mirrors_interval:
  "tc_interval s = Some p \<Longrightarrow>
   tc_barWidth (transcriptionTick r s) = fst (transcription_interval r p)
   \<and> tc_percentage (transcriptionTick r s) = round (fst (transcription_interval r p))
   \<and> (tc_interval (transcriptionTick r s) = None) = snd (transcription_interval r p)
   \<and> tc_isProcessing (transcriptionTick r s) = (tc_isProcessing s \<and> \<not> snd (transcription_interval r p))"
  by (cases "transcription_interval r p")
     (simp add: transcriptionTick_def startTranscription_resume_def showTranscriptionResults_def Let_def)

text \<open>
  The manager of a job that has just started, after at least one tick: the page shows
  the progress of the closure, and once the promise has resolved the rest of the start
  call has run and no further tick changes anything.
\<close>

lemma translationTicks_snoc:
  "translationTicks (rs @ [r]) s = translationTick r (translationTicks rs s)"
  by (simp add: translationTicks_def)

lemma transcriptionTicks_snoc:
  "transcriptionTicks (rs @ [r]) s = transcriptionTick r (transcriptionTicks rs s)"
  by (simp add: transcriptionTicks_def)

lemma translationTicks_closed_form:
  assumes "tl_interval s = Some 0"
  shows "translationTicks rs s =
     (if rs = [] then s
      else if snd (simulateTranslationProcess rs)
      then startTranslation_resume
             (s \<lparr> tl_interval := None,
                  tl_barWidth := fst (simulateTranslationProcess rs),
                  tl_percentage := round (fst (simulateTranslationProcess rs)) \<rparr>)
      else s \<lparr> tl_interval := Some (fst (simulateTranslationProcess rs)),
               tl_barWidth := fst (simulateTranslationProcess rs),
               tl_percentage := round (fst (simulateTranslationProcess rs)) \<rparr>)"
proof (induction rs rule: rev_induct)
  case Nil
  show ?case by (simp add: translationTicks_def)
next
  case (snoc r rs)
  obtain p res where sim: "simulateTranslationProcess rs = (p, res)"
    by (cases "simulateTranslationProcess rs")
  obtain p' res' where tick: "translation_interval r p = (p', res')"
    by (cases "translation_interval r p")
  show ?case
  proof (cases "rs = []")
    case True
    then have "p = 0" "res = False" using sim by (simp_all add: simulateTranslationProcess_def)
    then show ?thesis
      using True tick assms
      by (simp add: translationTicks_def translationTick_def simulateTranslationProcess_def)
  next
    case False
    show ?thesis
    proof (cases res)
      case True
      then show ?thesis
        using False snoc.IH sim
        by (simp add: translationTicks_snoc simulateTranslationProcess_snoc translationTick_def
              startTranslation_resume_def showTranslationResults_def Let_def)
    next
      case res: False
      then show ?thesis
        using False snoc.IH sim tick
        by (simp add: translationTicks_snoc simulateTranslationProcess_snoc translationTick_def)
    qed
  qed
qed

lemma transcriptionTicks_closed_form:
  assumes "tc_interval s = Some 0"
  shows "transcriptionTicks rs s =
     (if rs = [] then s
      else if snd (simulateTranscriptionProcess rs)
      then startTranscription_resume
             (s \<lparr> tc_interval := None,
                  tc_barWidth := fst (simulateTranscriptionProcess rs),
                  tc_percentage := round (fst (simulateTranscriptionProcess rs)) \<rparr>)
      else s \<lparr> tc_interval := Some (fst (simulateTranscriptionProcess rs)),
               tc_barWidth := fst (simulateTranscriptionProcess rs),
               tc_percentage := round (fst (simulateTranscriptionProcess rs)) \<rparr>)"
proof (induction rs rule: rev_induct)
  case Nil
  show ?case by (simp add: transcriptionTicks_def)
next
  case (snoc r rs)
  obtain p res where sim: "simulateTranscriptionProcess rs = (p, res)"
    by (cases "simulateTranscriptionProcess rs")
  obtain p' res' where tick: "transcription_interval r p = (p', res')"
    by (cases "transcription_interval r p")
  show ?case
  proof (cases "rs = []")
    case True
    then have "p = 0" "res = False" using sim by (simp_all add: simulateTranscriptionProcess_def)
    then show ?thesis
      using True tick assms
      by (simp add: transcriptionTicks_def transcriptionTick_def simulateTranscriptionProcess_def)
  next
    case False
    show ?thesis
    proof (cases res)
      case True
      then show ?thesis
        using False snoc.IH sim
        by (simp add: transcriptionTicks_snoc simulateTranscriptionProcess_snoc transcriptionTick_def
              startTranscription_resume_def showTranscriptionResults_def Let_def)
    next
      case res: False
      then show ?thesis
        using False snoc.IH sim tick
        by (simp add: transcriptionTicks_snoc simulateTranscriptionProcess_snoc transcriptionTick_def)
    qed
  qed
qed

lemma translation_progress:
  assumes "tl_interval s = Some 0" and "tl_isProcessing s"
    and "\<forall>r \<in> set rs. 0 \<le> r" and "1 \<le> k" and "k \<le> length rs"
  shows "tl_barWidth (translationTicks (take k rs) s) = min 100 (running_total 10 (take k rs))"
    and "tl_percentage (translationTicks (take k rs) s) = round (min 100 (running_total 10 (take k rs)))"
    and "tl_isProcessing (translationTicks (take k rs) s) = (running_total 10 (take k rs) < 100)"
    and "tl_interval (translationTicks (take k rs) s)
           = (if running_total 10 (take k rs) < 100
              then Some (running_total 10 (take k rs)) else None)"
    and "tl_resultsShown (translationTicks (take k rs) s)
           = (tl_resultsShown s \<or> 100 \<le> running_total 10 (take k rs))"
    and "tl_notifications (translationTicks (take k rs) s)
           = tl_notifications s
             @ (if 100 \<le> running_total 10 (take k rs)
                then [(''Translation completed successfully!'', Success)] else [])"
proof -
  have ne: "take k rs \<noteq> []" using assms(4,5) by (cases rs) auto
  have nonneg: "\<forall>r \<in> set (take k rs). 0 \<le> r"
    using assms(3) by (meson in_set_takeD)
  note sim = simulateTranslationProcess_total [OF nonneg]
  note cf = translationTicks_closed_form [OF assms(1), of "take k rs"]
  show "tl_barWidth (translationTicks (take k rs) s) = min 100 (running_total 10 (take k rs))"
    unfolding cf using ne by (simp add: sim startTranslation_resume_def showTranslationResults_def Let_def)
  show "tl_percentage (translationTicks (take k rs) s) = round (min 100 (running_total 10 (take k rs)))"
    unfolding cf using ne by (simp add: sim startTranslation_resume_def showTranslationResults_def Let_def)
  show "tl_isProcessing (translationTicks (take k rs) s) = (running_total 10 (take k rs) < 100)"
    unfolding cf using ne assms(2)
    by (auto simp: sim startTranslation_resume_def showTranslationResults_def Let_def)
  show "tl_interval (translationTicks (take k rs) s)
           = (if running_total 10 (take k rs) < 100
              then Some (running_total 10 (take k rs)) else None)"
    unfolding cf using ne by (auto simp: sim startTranslation_resume_def showTranslationResults_def Let_def)
  show "tl_resultsShown (translationTicks (take k rs) s)
           = (tl_resultsShown s \<or> 100 \<le> running_total 10 (take k rs))"
    unfolding cf using ne by (simp add: sim startTranslation_resume_def showTranslationResults_def Let_def)
  show "tl_notifications (translationTicks (take k rs) s)
           = tl_notifications s
             @ (if 100 \<le> running_total 10 (take k rs)
                then [(''Translation completed successfully!'', Success)] else [])"
    unfolding cf using ne
    by (simp add: sim startTranslation_resume_def showTranslationResults_def showNotification_def Let_def)
qed

lemma transcription_progress:
  assumes "tc_interval s = Some 0" and "tc_isProcessing s"
    and "\<forall>r \<in> set rs. 0 \<le> r" and "1 \<le> k" and "k \<le> length rs"
  shows "tc_barWidth (transcriptionTicks (take k rs) s) = min 100 (running_total 15 (take k rs))"
    and "tc_percentage (transcriptionTicks (take k rs) s) = round (min 100 (running_total 15 (take k rs)))"
    and "tc_isProcessing (transcriptionTicks (take k rs) s) = (running_total 15 (take k rs) < 100)"
    and "tc_interval (transcriptionTicks (take k rs) s)
           = (if running_total 15 (take k rs) < 100
              then Some (running_total 15 (take k rs)) else None)"
    and "tc_resultsShown (transcriptionTicks (take k rs) s)
           = (tc_resultsShown s \<or> 100 \<le> running_total 15 (take k rs))"
    and "tc_notifications (transcriptionTicks (take k rs) s)
           = tc_notifications s
             @ (if 100 \<le> running_total 15 (take k rs)
                then [(''Transcription completed successfully!'', Success)] else [])"
proof -
  have ne: "take k rs \<noteq> []" using assms(4,5) by (cases rs) auto
  have nonneg: "\<forall>r \<in> set (take k rs). 0 \<le> r"
    using assms(3) by (meson in_set_takeD)
  note sim = simulateTranscriptionProcess_total [OF nonneg]
  note cf = transcriptionTicks_closed_form [OF assms(1), of "take k rs"]
  show "tc_barWidth (transcriptionTicks (take k rs) s) = min 100 (running_total 15 (take k rs))"
    unfolding cf using ne by (simp add: sim startTranscription_resume_def showTranscriptionResults_def Let_def)
  show "tc_percentage (transcriptionTicks (take k rs) s) = round (min 100 (running_total 15 (take k rs)))"
    unfolding cf using ne by (simp add: sim startTranscription_resume_def showTranscriptionResults_def Let_def)
  show "tc_isProcessing (transcriptionTicks (take k rs) s) = (running_total 15 (take k rs) < 100)"
    unfolding cf using ne assms(2)
    by (auto simp: sim startTranscription_resume_def showTranscriptionResults_def Let_def)
  show "tc_interval (transcriptionTicks (take k rs) s)
           = (if running_total 15 (take k rs) < 100
              then Some (running_total 15 (take k rs)) else None)"
    unfolding cf using ne by (auto simp: sim startTranscription_resume_def showTranscriptionResults_def Let_def)
  show "tc_resultsShown (transcriptionTicks (take k rs) s)
           = (tc_resultsShown s \<or> 100 \<le> running_total 15 (take k rs))"
    unfolding cf using ne by (simp add: sim startTranscription_resume_def showTranscriptionResults_def Let_def)
  show "tc_notifications (transcriptionTicks (take k rs) s)
           = tc_notifications s
             @ (if 100 \<le> running_total 15 (take k rs)
                then [(''Transcription completed successfully!'', Success)] else [])"
    unfolding cf using ne
    by (simp add: sim startTranscription_resume_def showTranscriptionResults_def showNotification_def Let_def)
qed

text \<open>
  Rounding decides the tick of completion. Take fourteen draws of the double nearest to
  0.7 and then the draw \<open>900719925474099 / 2 ^ 52\<close>. Each product with 10 rounds to 7 (a
  tie, resolved to the even significand), the total is 98 after fourteen ticks, and the
  last sum rounds to 100: the job completes at the fifteenth tick, although the exact sum
  of the fifteen increments is below 100.
\<close>

lemma double_seven: "fl (3152519739159347 / 2 ^ 52 * 10) = 7"
  using fl_eval [of 2 "3152519739159347 / 2 ^ 52 * 10"]
  by (simp add: round_even_def)

lemma double_last: "fl (900719925474099 / 2 ^ 52 * 10) = 9007199254740990 / 2 ^ 52"
  using fl_eval [of 0 "900719925474099 / 2 ^ 52 * 10"]
  by (simp add: round_even_def)

lemma double_hundred: "fl (98 + 9007199254740990 / 2 ^ 52) = 100"
  using fl_eval [of 6 "98 + 9007199254740990 / 2 ^ 52"]
  by (simp add: round_even_def)


lemma double_sevens:
  "fl 7 = 7" "fl 14 = 14" "fl 21 = 21" "fl 28 = 28" "fl 35 = 35" "fl 42 = 42" "fl 49 = 49"
  "fl 56 = 56" "fl 63 = 63" "fl 70 = 70" "fl 77 = 77" "fl 84 = 84" "fl 91 = 91" "fl 98 = 98"
  using fl_dyadic [of 7 0] fl_dyadic [of 14 0] fl_dyadic [of 21 0] fl_dyadic [of 28 0]
    fl_dyadic [of 35 0] fl_dyadic [of 42 0] fl_dyadic [of 49 0] fl_dyadic [of 56 0]
    fl_dyadic [of 63 0] fl_dyadic [of 70 0] fl_dyadic [of 77 0] fl_dyadic [of 84 0]
    fl_dyadic [of 91 0] fl_dyadic [of 98 0]
  by simp_all

lemma double_rounding_decides_completion:
  "simulateTranslationProcess [3152519739159347 / 2 ^ 52, 3152519739159347 / 2 ^ 52, 3152519739159347 / 2 ^ 52, 3152519739159347 / 2 ^ 52, 3152519739159347 / 2 ^ 52, 3152519739159347 / 2 ^ 52, 3152519739159347 / 2 ^ 52, 3152519739159347 / 2 ^ 52, 3152519739159347 / 2 ^ 52, 3152519739159347 / 2 ^ 52, 3152519739159347 / 2 ^ 52, 3152519739159347 / 2 ^ 52, 3152519739159347 / 2 ^ 52, 3152519739159347 / 2 ^ 52] = (98, False)
   \<and> simulateTranslationProcess [3152519739159347 / 2 ^ 52, 3152519739159347 / 2 ^ 52, 3152519739159347 / 2 ^ 52, 3152519739159347 / 2 ^ 52, 3152519739159347 / 2 ^ 52, 3152519739159347 / 2 ^ 52, 3152519739159347 / 2 ^ 52, 3152519739159347 / 2 ^ 52, 3152519739159347 / 2 ^ 52, 3152519739159347 / 2 ^ 52, 3152519739159347 / 2 ^ 52, 3152519739159347 / 2 ^ 52, 3152519739159347 / 2 ^ 52, 3152519739159347 / 2 ^ 52, 900719925474099 / 2 ^ 52] = (100, True)
   \<and> sum_list (map (\<lambda>r. r * 10) [3152519739159347 / 2 ^ 52, 3152519739159347 / 2 ^ 52, 3152519739159347 / 2 ^ 52, 3152519739159347 / 2 ^ 52, 3152519739159347 / 2 ^ 52, 3152519739159347 / 2 ^ 52, 3152519739159347 / 2 ^ 52, 3152519739159347 / 2 ^ 52, 3152519739159347 / 2 ^ 52, 3152519739159347 / 2 ^ 52, 3152519739159347 / 2 ^ 52, 3152519739159347 / 2 ^ 52, 3152519739159347 / 2 ^ 52, 3152519739159347 / 2 ^ 52, 900719925474099 / 2 ^ 52]) < (100::real)"
proof -
  have s7: "fl (15762598695796735 / 2251799813685248) = 7"
    using double_seven by simp
  have l: "fl (4503599627370495 / 2251799813685248) = 4503599627370495 / 2251799813685248"
    using double_last by simp
  have h: "fl (98 + 4503599627370495 / 2251799813685248) = 100"
    using double_hundred by simp
  note f = s7 l double_sevens fl_zero
  have a: "simulateTranslationProcess [3152519739159347 / 2 ^ 52, 3152519739159347 / 2 ^ 52, 3152519739159347 / 2 ^ 52, 3152519739159347 / 2 ^ 52, 3152519739159347 / 2 ^ 52, 3152519739159347 / 2 ^ 52, 3152519739159347 / 2 ^ 52, 3152519739159347 / 2 ^ 52, 3152519739159347 / 2 ^ 52, 3152519739159347 / 2 ^ 52, 3152519739159347 / 2 ^ 52, 3152519739159347 / 2 ^ 52, 3152519739159347 / 2 ^ 52, 3152519739159347 / 2 ^ 52] = (98, False)"
    by (simp add: simulateTranslationProcess_def translation_interval_def f)
  have h': "fl (225179981368524799 / 2251799813685248) = 100"
    using h by simp
  have b: "simulateTranslationProcess [3152519739159347 / 2 ^ 52, 3152519739159347 / 2 ^ 52, 3152519739159347 / 2 ^ 52, 3152519739159347 / 2 ^ 52, 3152519739159347 / 2 ^ 52, 3152519739159347 / 2 ^ 52, 3152519739159347 / 2 ^ 52, 3152519739159347 / 2 ^ 52, 3152519739159347 / 2 ^ 52, 3152519739159347 / 2 ^ 52, 3152519739159347 / 2 ^ 52, 3152519739159347 / 2 ^ 52, 3152519739159347 / 2 ^ 52, 3152519739159347 / 2 ^ 52, 900719925474099 / 2 ^ 52] = (100, True)"
    by (simp add: simulateTranslationProcess_def translation_interval_def f h')
  have c: "sum_list (map (\<lambda>r. r * 10) [3152519739159347 / 2 ^ 52, 3152519739159347 / 2 ^ 52, 3152519739159347 / 2 ^ 52, 3152519739159347 / 2 ^ 52, 3152519739159347 / 2 ^ 52, 3152519739159347 / 2 ^ 52, 3152519739159347 / 2 ^ 52, 3152519739159347 / 2 ^ 52, 3152519739159347 / 2 ^ 52, 3152519739159347 / 2 ^ 52, 3152519739159347 / 2 ^ 52, 3152519739159347 / 2 ^ 52, 3152519739159347 / 2 ^ 52, 3152519739159347 / 2 ^ 52, 900719925474099 / 2 ^ 52]) < (100::real)"
    by simp
  from a b c show ?thesis by blast
qed

text \<open>
  Claim C3. Take a translation job and a transcription job that have just started
  running, and ticks with non-negative draws, that is with the non-negative increments
  \<open>r * 10\<close> (or \<open>r * 15\<close>). After the first \<open>k \<ge> 1\<close> ticks the progress shown (bar width
  and percentage) is the running total of the first \<open>k\<close> increments capped at 100, where
  the running total is the sum as the code's double additions accumulate it. The job is
  still running (flag set, interval running with the running total as its progress)
  exactly if the running total is below 100; it has completed (flag reset, interval
  cleared, results shown, the success notification shown) exactly if the running total
  has reached or exceeded 100, and then the progress is exactly 100, not the total. The
  running total and the progress shown after \<open>j \<le> k\<close> ticks are at most those after \<open>k\<close>
  ticks, so the job completes at the first tick at which the total reaches 100.
\<close>

theorem progress_monotone_and_clamped:
  assumes "tl_interval s = Some 0" and "tl_isProcessing s"
    and "\<forall>r \<in> set rs. 0 \<le> r" and "1 \<le> k" and "k \<le> length rs"
    and "tc_interval c = Some 0" and "tc_isProcessing c"
    and "\<forall>q \<in> set qs. 0 \<le> q" and "1 \<le> l" and "l \<le> length qs"
  shows "tl_barWidth (translationTicks (take k rs) s) = min 100 (running_total 10 (take k rs))
       \<and> tl_percentage (translationTicks (take k rs) s)
           = round (min 100 (running_total 10 (take k rs)))
       \<and> tl_isProcessing (translationTicks (take k rs) s) = (running_total 10 (take k rs) < 100)
       \<and> tl_interval (translationTicks (take k rs) s)
           = (if running_total 10 (take k rs) < 100
              then Some (running_total 10 (take k rs)) else None)
       \<and> tl_resultsShown (translationTicks (take k rs) s)
           = (tl_resultsShown s \<or> 100 \<le> running_total 10 (take k rs))
       \<and> tl_notifications (translationTicks (take k rs) s)
           = tl_notifications s
             @ (if 100 \<le> running_total 10 (take k rs)
                then [(''Translation completed successfully!'', Success)] else [])
       \<and> (\<forall>j. 1 \<le> j \<and> j \<le> k \<longrightarrow>
             running_total 10 (take j rs) \<le> running_total 10 (take k rs)
             \<and> tl_barWidth (translationTicks (take j rs) s)
                 \<le> tl_barWidth (translationTicks (take k rs) s))
       \<and> tc_barWidth (transcriptionTicks (take l qs) c) = min 100 (running_total 15 (take l qs))
       \<and> tc_percentage (transcriptionTicks (take l qs) c)
           = round (min 100 (running_total 15 (take l qs)))
       \<and> tc_isProcessing (transcriptionTicks (take l qs) c) = (running_total 15 (take l qs) < 100)
       \<and> tc_interval (transcriptionTicks (take l qs) c)
           = (if running_total 15 (take l qs) < 100
              then Some (running_total 15 (take l qs)) else None)
       \<and> tc_resultsShown (transcriptionTicks (take l qs) c)
           = (tc_resultsShown c \<or> 100 \<le> running_total 15 (take l qs))
       \<and> tc_notifications (transcriptionTicks (take l qs) c)
           = tc_notifications c
             @ (if 100 \<le> running_total 15 (take l qs)
                then [(''Transcription completed successfully!'', Success)] else [])
       \<and> (\<forall>i. 1 \<le> i \<and> i \<le> l \<longrightarrow>
             running_total 15 (take i qs) \<le> running_total 15 (take l qs)
             \<and> tc_barWidth (transcriptionTicks (take i qs) c)
                 \<le> tc_barWidth (transcriptionTicks (take l qs) c))"
proof -
  have mono_tl: "running_total 10 (take j rs) \<le> running_total 10 (take k rs)
      \<and> tl_barWidth (translationTicks (take j rs) s) \<le> tl_barWidth (translationTicks (take k rs) s)"
    if "1 \<le> j \<and> j \<le> k" for j
  proof -
    from that assms(5) have j: "1 \<le> j" "j \<le> length rs" "j \<le> k" by simp_all
    have t: "running_total 10 (take j rs) \<le> running_total 10 (take k rs)"
      using assms(3) _ j(3) by (rule running_total_take_mono) simp
    then show ?thesis
      unfolding translation_progress(1) [OF assms(1,2,3) j(1,2)]
        translation_progress(1) [OF assms(1,2,3,4,5)]
      by (simp add: min_def)
  qed
  have mono_tc: "running_total 15 (take i qs) \<le> running_total 15 (take l qs)
      \<and> tc_barWidth (transcriptionTicks (take i qs) c) \<le> tc_barWidth (transcriptionTicks (take l qs) c)"
    if "1 \<le> i \<and> i \<le> l" for i
  proof -
    from that assms(10) have i: "1 \<le> i" "i \<le> length qs" "i \<le> l" by simp_all
    have t: "running_total 15 (take i qs) \<le> running_total 15 (take l qs)"
      using assms(8) _ i(3) by (rule running_total_take_mono) simp
    then show ?thesis
      unfolding transcription_progress(1) [OF assms(6,7,8) i(1,2)]
        transcription_progress(1) [OF assms(6,7,8,9,10)]
      by (simp add: min_def)
  qed
  show ?thesis
    using translation_progress [OF assms(1,2,3,4,5)]
      transcription_progress [OF assms(6,7,8,9,10)] mono_tl mono_tc
    by blast
qed

text \<open>
  A translation and a transcription of one file, with the draw 15/16 at every tick. The
  translation shows 93.75 after ten ticks and completes at the eleventh, where the running
  total is 103.125 and the progress shown is 100. The transcription shows 98.4375 after
  seven ticks and completes at the eighth, where the running total is 112.5.
\<close>

theorem progress_monotone_and_clamped_witness:
  "tl_interval (translation_run [OptionClick ''de'', TranslationFilesPicked [\<lparr> file_name = ''talk.mp3'', file_size = 1024, file_type = ''audio/mpeg'' \<rparr>], TranslateClick]) = Some 0
   \<and> tl_isProcessing (translation_run [OptionClick ''de'', TranslationFilesPicked [\<lparr> file_name = ''talk.mp3'', file_size = 1024, file_type = ''audio/mpeg'' \<rparr>], TranslateClick])
   \<and> tl_barWidth (translationTicks (take 10 [15 / 16, 15 / 16, 15 / 16, 15 / 16, 15 / 16, 15 / 16, 15 / 16, 15 / 16, 15 / 16, 15 / 16, 15 / 16]) (translation_run [OptionClick ''de'', TranslationFilesPicked [\<lparr> file_name = ''talk.mp3'', file_size = 1024, file_type = ''audio/mpeg'' \<rparr>], TranslateClick])) = 375 / 4
   \<and> tl_isProcessing (translationTicks (take 10 [15 / 16, 15 / 16, 15 / 16, 15 / 16, 15 / 16, 15 / 16, 15 / 16, 15 / 16, 15 / 16, 15 / 16, 15 / 16]) (translation_run [OptionClick ''de'', TranslationFilesPicked [\<lparr> file_name = ''talk.mp3'', file_size = 1024, file_type = ''audio/mpeg'' \<rparr>], TranslateClick]))
   \<and> running_total 10 (take 11 [15 / 16, 15 / 16, 15 / 16, 15 / 16, 15 / 16, 15 / 16, 15 / 16, 15 / 16, 15 / 16, 15 / 16, 15 / 16]) = 825 / 8
   \<and> tl_barWidth (translationTicks (take 11 [15 / 16, 15 / 16, 15 / 16, 15 / 16, 15 / 16, 15 / 16, 15 / 16, 15 / 16, 15 / 16, 15 / 16, 15 / 16]) (translation_run [OptionClick ''de'', TranslationFilesPicked [\<lparr> file_name = ''talk.mp3'', file_size = 1024, file_type = ''audio/mpeg'' \<rparr>], TranslateClick])) = 100
   \<and> tl_percentage (translationTicks (take 11 [15 / 16, 15 / 16, 15 / 16, 15 / 16, 15 / 16, 15 / 16, 15 / 16, 15 / 16, 15 / 16, 15 / 16, 15 / 16]) (translation_run [OptionClick ''de'', TranslationFilesPicked [\<lparr> file_name = ''talk.mp3'', file_size = 1024, file_type = ''audio/mpeg'' \<rparr>], TranslateClick])) = 100
   \<and> \<not> tl_isProcessing (translationTicks (take 11 [15 / 16, 15 / 16, 15 / 16, 15 / 16, 15 / 16, 15 / 16, 15 / 16, 15 / 16, 15 / 16, 15 / 16, 15 / 16]) (translation_run [OptionClick ''de'', TranslationFilesPicked [\<lparr> file_name = ''talk.mp3'', file_size = 1024, file_type = ''audio/mpeg'' \<rparr>], TranslateClick]))
   \<and> tl_interval (translationTicks (take 11 [15 / 16, 15 / 16, 15 / 16, 15 / 16, 15 / 16, 15 / 16, 15 / 16, 15 / 16, 15 / 16, 15 / 16, 15 / 16]) (translation_run [OptionClick ''de'', TranslationFilesPicked [\<lparr> file_name = ''talk.mp3'', file_size = 1024, file_type = ''audio/mpeg'' \<rparr>], TranslateClick])) = None
   \<and> tl_notifications (translationTicks (take 11 [15 / 16, 15 / 16, 15 / 16, 15 / 16, 15 / 16, 15 / 16, 15 / 16, 15 / 16, 15 / 16, 15 / 16, 15 / 16]) (translation_run [OptionClick ''de'', TranslationFilesPicked [\<lparr> file_name = ''talk.mp3'', file_size = 1024, file_type = ''audio/mpeg'' \<rparr>], TranslateClick]))
       = [(''File uploaded successfully!'', Success),
          (''Translation completed successfully!'', Success)]
   \<and> tc_interval (startTranscription (newTranscriptionManager \<lparr> tc_files := [\<lparr> file_name = ''talk.mp3'', file_size = 1024, file_type = ''audio/mpeg'' \<rparr>] \<rparr>)) = Some 0
   \<and> tc_isProcessing (startTranscription (newTranscriptionManager \<lparr> tc_files := [\<lparr> file_name = ''talk.mp3'', file_size = 1024, file_type = ''audio/mpeg'' \<rparr>] \<rparr>))
   \<and> tc_barWidth (transcriptionTicks (take 7 [15 / 16, 15 / 16, 15 / 16, 15 / 16, 15 / 16, 15 / 16, 15 / 16, 15 / 16]) (startTranscription (newTranscriptionManager \<lparr> tc_files := [\<lparr> file_name = ''talk.mp3'', file_size = 1024, file_type = ''audio/mpeg'' \<rparr>] \<rparr>))) = 1575 / 16
   \<and> tc_isProcessing (transcriptionTicks (take 7 [15 / 16, 15 / 16, 15 / 16, 15 / 16, 15 / 16, 15 / 16, 15 / 16, 15 / 16]) (startTranscription (newTranscriptionManager \<lparr> tc_files := [\<lparr> file_name = ''talk.mp3'', file_size = 1024, file_type = ''audio/mpeg'' \<rparr>] \<rparr>)))
   \<and> running_total 15 (take 8 [15 / 16, 15 / 16, 15 / 16, 15 / 16, 15 / 16, 15 / 16, 15 / 16, 15 / 16]) = 225 / 2
   \<and> tc_barWidth (transcriptionTicks (take 8 [15 / 16, 15 / 16, 15 / 16, 15 / 16, 15 / 16, 15 / 16, 15 / 16, 15 / 16]) (startTranscription (newTranscriptionManager \<lparr> tc_files := [\<lparr> file_name = ''talk.mp3'', file_size = 1024, file_type = ''audio/mpeg'' \<rparr>] \<rparr>))) = 100
   \<and> \<not> tc_isProcessing (transcriptionTicks (take 8 [15 / 16, 15 / 16, 15 / 16, 15 / 16, 15 / 16, 15 / 16, 15 / 16, 15 / 16]) (startTranscription (newTranscriptionManager \<lparr> tc_files := [\<lparr> file_name = ''talk.mp3'', file_size = 1024, file_type = ''audio/mpeg'' \<rparr>] \<rparr>)))
   \<and> tc_notifications (transcriptionTicks (take 8 [15 / 16, 15 / 16, 15 / 16, 15 / 16, 15 / 16, 15 / 16, 15 / 16, 15 / 16]) (startTranscription (newTranscriptionManager \<lparr> tc_files := [\<lparr> file_name = ''talk.mp3'', file_size = 1024, file_type = ''audio/mpeg'' \<rparr>] \<rparr>)))
       = [(''Transcription completed successfully!'', Success)]"
proof -
  let ?s = "(translation_run [OptionClick ''de'', TranslationFilesPicked [\<lparr> file_name = ''talk.mp3'', file_size = 1024, file_type = ''audio/mpeg'' \<rparr>], TranslateClick])"
  let ?c = "(startTranscription (newTranscriptionManager \<lparr> tc_files := [\<lparr> file_name = ''talk.mp3'', file_size = 1024, file_type = ''audio/mpeg'' \<rparr>] \<rparr>))"
  let ?rs = "[15 / 16, 15 / 16, 15 / 16, 15 / 16, 15 / 16, 15 / 16, 15 / 16, 15 / 16, 15 / 16, 15 / 16, 15 / 16] :: real list"
  let ?qs = "[15 / 16, 15 / 16, 15 / 16, 15 / 16, 15 / 16, 15 / 16, 15 / 16, 15 / 16] :: real list"
  have s0: "tl_interval ?s = Some 0" "tl_isProcessing ?s"
    by (simp_all add: translation_eval)
  have c0: "tc_interval ?c = Some 0" "tc_isProcessing ?c"
    by (simp_all add: newTranscriptionManager_def startTranscription_def)
  have rs: "\<forall>r \<in> set ?rs. 0 \<le> r" and qs: "\<forall>q \<in> set ?qs. 0 \<le> q" by simp_all
  have t10: "running_total 10 (take 10 ?rs) = 375 / 4"
    and t11: "running_total 10 (take 11 ?rs) = 825 / 8"
    and q7: "running_total 15 (take 7 ?qs) = 1575 / 16"
    and q8: "running_total 15 (take 8 ?qs) = 225 / 2"
    by (simp_all add: running_total_def fl_values fl_zero)
  have n: "tl_notifications ?s = [(''File uploaded successfully!'', Success)]"
    "tc_notifications ?c = []"
    by (simp_all add: translation_eval newTranscriptionManager_def startTranscription_def)
  note a = progress_monotone_and_clamped [OF s0 rs _ _ c0 qs, of 10 7, unfolded t10 q7]
  note b = progress_monotone_and_clamped [OF s0 rs _ _ c0 qs, of 11 8, unfolded t11 q8]
  from a b s0 c0 t11 q8 n show ?thesis by simp
qed

subsection \<open>Single flight\<close>

text \<open>
  In every state the translation tab or the batch tab can reach, the flag
  \<^verbatim>\<open>isProcessing\<close> is true exactly while the interval of a run is set: a start call
  made during a run meets the flag.
\<close>

lemma translation_step_flag:
  assumes "tl_isProcessing s = (tl_interval s \<noteq> None)"
  shows "tl_isProcessing (translation_step s e) = (tl_interval (translation_step s e) \<noteq> None)"
proof (cases e)
  case (OptionClick lang)
  then show ?thesis using assms
    by (simp add: languageOptionClick_def updateTranslateButton_def)
next
  case (TranslationTick r)
  then show ?thesis using assms
    by (auto simp: translationTick_def startTranslation_resume_def showTranslationResults_def
          Let_def split: option.splits prod.splits)
next
  case (DownloadClick i j)
  then show ?thesis using assms
    by (simp add: translationDownloadClick_def handleTranslationDownload_def Let_def)
next
  case (TranslationFilesPicked files)
  then show ?thesis using assms by (simp add: translationFilesPicked_def Let_def)
qed (use assms in \<open>simp_all add: startTranslation_def clearSelection_def updateTranslateButton_def\<close>)

lemma translation_run_flag:
  "tl_isProcessing (translation_run events) = (tl_interval (translation_run events) \<noteq> None)"
proof (induction events rule: rev_induct)
  case Nil
  show ?case by (simp add: translation_run_def newTranslationManager_def)
next
  case (snoc e events)
  then show ?case by (simp only: translation_run_snoc translation_step_flag)
qed

lemma batch_step_flag:
  assumes "b_isProcessing s = (b_interval s \<noteq> None)"
  shows "b_isProcessing (batch_step s e) = (b_interval (batch_step s e) \<noteq> None)"
proof (cases e)
  case (IntervalTick r)
  then show ?thesis using assms
    by (auto simp: batchTick_def processBatch_resume_def showBatchResults_def Let_def
             split: option.splits prod.splits)
next
  case (FilesPicked files)
  then show ?thesis using assms by (simp add: filesPicked_def Let_def)
next
  case TimeoutFires
  then show ?thesis using assms by (simp add: timeoutFires_def split: list.splits)
qed (use assms in \<open>simp_all add: processBatch_def handleBatchDownload_def resetBatch_def Let_def\<close>)

lemma batch_run_flag:
  "b_isProcessing (batch_run events) = (b_interval (batch_run events) \<noteq> None)"
proof (induction events rule: rev_induct)
  case Nil
  show ?case by (simp add: batch_run_def newBatchManager_def)
next
  case (snoc e events)
  then show ?case by (simp only: batch_run_snoc batch_step_flag)
qed

text \<open>
  Claim C2. For a translation manager, a transcription manager or a batch manager whose
  \<^verbatim>\<open>isProcessing\<close> flag is true, the start call (\<^verbatim>\<open>startTranslation\<close>,
  \<^verbatim>\<open>startTranscription\<close>, \<^verbatim>\<open>processBatch\<close>) returns at once: the whole state,
  the running interval and the page included, is as it was. In particular, in every
  state the translation tab or the batch tab can reach with the interval of a run set,
  a further start call changes nothing.
\<close>

theorem single_flight:
  "(tl_isProcessing t \<longrightarrow> startTranslation t = t)
   \<and> (tc_isProcessing c \<longrightarrow> startTranscription c = c)
   \<and> (b_isProcessing b \<longrightarrow> processBatch b = b)
   \<and> (tl_interval (translation_run tevents) \<noteq> None \<longrightarrow>
        startTranslation (translation_run tevents) = translation_run tevents)
   \<and> (b_interval (batch_run bevents) \<noteq> None \<longrightarrow>
        processBatch (batch_run bevents) = batch_run bevents)"
proof -
  have guard: "tl_isProcessing t \<longrightarrow> startTranslation t = t"
    "tc_isProcessing c \<longrightarrow> startTranscription c = c"
    "b_isProcessing b \<longrightarrow> processBatch b = b" for t c b
    by (simp_all add: startTranslation_def startTranscription_def processBatch_def)
  have "startTranslation (translation_run tevents) = translation_run tevents"
    if "tl_interval (translation_run tevents) \<noteq> None"
    using that guard(1) [of "translation_run tevents"] translation_run_flag [of tevents] by simp
  moreover have "processBatch (batch_run bevents) = batch_run bevents"
    if "b_interval (batch_run bevents) \<noteq> None"
    using that guard(3) [of "batch_run bevents"] batch_run_flag [of bevents] by simp
  ultimately show ?thesis using guard by blast
qed

text \<open>
  A second start in the middle of a run (after one tick with the draw 0.5), for each of
  the three managers.
\<close>

theorem single_flight_witness:
  "tl_isProcessing
     (translation_run
        [OptionClick ''de'',
         TranslationFilesPicked [\<lparr> file_name = ''talk.mp3'', file_size = 1024, file_type = ''audio/mpeg'' \<rparr>],
         TranslateClick, TranslationTick 0.5])
   \<and> tl_interval
     (translation_run
        [OptionClick ''de'',
         TranslationFilesPicked [\<lparr> file_name = ''talk.mp3'', file_size = 1024, file_type = ''audio/mpeg'' \<rparr>],
         TranslateClick, TranslationTick 0.5]) = Some 5
   \<and> translation_run
        [OptionClick ''de'',
         TranslationFilesPicked [\<lparr> file_name = ''talk.mp3'', file_size = 1024, file_type = ''audio/mpeg'' \<rparr>],
         TranslateClick, TranslationTick 0.5, TranslateClick]
     = translation_run
        [OptionClick ''de'',
         TranslationFilesPicked [\<lparr> file_name = ''talk.mp3'', file_size = 1024, file_type = ''audio/mpeg'' \<rparr>],
         TranslateClick, TranslationTick 0.5]
   \<and> tc_isProcessing
        (transcriptionTick 0.5 (startTranscription
           (newTranscriptionManager \<lparr> tc_files := [\<lparr> file_name = ''talk.mp3'', file_size = 1024, file_type = ''audio/mpeg'' \<rparr>] \<rparr>)))
   \<and> startTranscription (transcriptionTick 0.5 (startTranscription
           (newTranscriptionManager \<lparr> tc_files := [\<lparr> file_name = ''talk.mp3'', file_size = 1024, file_type = ''audio/mpeg'' \<rparr>] \<rparr>)))
     = transcriptionTick 0.5 (startTranscription
           (newTranscriptionManager \<lparr> tc_files := [\<lparr> file_name = ''talk.mp3'', file_size = 1024, file_type = ''audio/mpeg'' \<rparr>] \<rparr>))
   \<and> b_isProcessing
        (batch_run [FilesPicked [\<lparr> file_name = ''talk.mp3'', file_size = 1024, file_type = ''audio/mpeg'' \<rparr>],
                    ProcessClick, IntervalTick 0.5])
   \<and> b_interval
        (batch_run [FilesPicked [\<lparr> file_name = ''talk.mp3'', file_size = 1024, file_type = ''audio/mpeg'' \<rparr>],
                    ProcessClick, IntervalTick 0.5])
       = Some (\<lparr> progress = 10, filesProcessed = 1, progressPerFile = 100, currentFile = 0 \<rparr>,
               ''transcribe'')
   \<and> batch_run [FilesPicked [\<lparr> file_name = ''talk.mp3'', file_size = 1024, file_type = ''audio/mpeg'' \<rparr>],
                    ProcessClick, IntervalTick 0.5, ProcessClick]
     = batch_run [FilesPicked [\<lparr> file_name = ''talk.mp3'', file_size = 1024, file_type = ''audio/mpeg'' \<rparr>],
                    ProcessClick, IntervalTick 0.5]"
proof -
  let ?f = "\<lparr> file_name = ''talk.mp3'', file_size = 1024, file_type = ''audio/mpeg'' \<rparr>"
  let ?te = "[OptionClick ''de'', TranslationFilesPicked [?f], TranslateClick, TranslationTick 0.5]"
  let ?be = "[FilesPicked [?f], ProcessClick, IntervalTick 0.5]"
  let ?c = "transcriptionTick 0.5 (startTranscription (newTranscriptionManager \<lparr> tc_files := [?f] \<rparr>))"
  have t: "tl_isProcessing (translation_run ?te)" by (simp add: translation_eval)
  have ti: "tl_interval (translation_run ?te) = Some 5" by (simp add: translation_eval)
  have c: "tc_isProcessing ?c"
    by (simp add: newTranscriptionManager_def startTranscription_def transcriptionTick_def
          transcription_interval_def Let_def fl_values fl_zero)
  have b: "b_isProcessing (batch_run ?be)"
    by (simp add: batch_run_def newBatchManager_def filesPicked_def processBatch_def batchTick_def
          batch_interval_def simulateBatchProcess_def Let_def)
  have bi: "b_interval (batch_run ?be)
       = Some (\<lparr> progress = 10, filesProcessed = 1, progressPerFile = 100, currentFile = 0 \<rparr>,
               ''transcribe'')"
    by (simp add: batch_run_def newBatchManager_def filesPicked_def processBatch_def batchTick_def
          batch_interval_def simulateBatchProcess_def Let_def)
  have t2: "translation_run [OptionClick ''de'', TranslationFilesPicked [?f], TranslateClick,
              TranslationTick 0.5, TranslateClick] = startTranslation (translation_run ?te)"
    by (simp add: translation_run_def)
  have b2: "batch_run [FilesPicked [?f], ProcessClick, IntervalTick 0.5, ProcessClick]
              = processBatch (batch_run ?be)"
    by (simp add: batch_run_def)
  from single_flight [of "translation_run ?te" ?c "batch_run ?be" ?te ?be] t ti c b bi
  show ?thesis
    unfolding t2 b2 by simp
qed

subsection \<open>The batch manager's own list\<close>

text \<open>No event but a reset writes \<^verbatim>\<open>currentBatch\<close>, and a reset empties it.\<close>

lemma batch_step_currentBatch:
  "currentBatch (batch_step s e) = (if e = ResetBatch then [] else currentBatch s)"
proof (cases e)
  case (IntervalTick r)
  then show ?thesis
    by (auto simp: batchTick_def processBatch_resume_def showBatchResults_def Let_def
             split: option.splits prod.splits)
next
  case (FilesPicked files)
  then show ?thesis by (simp add: filesPicked_def Let_def)
next
  case TimeoutFires
  then show ?thesis by (simp add: timeoutFires_def split: list.splits)
qed (simp_all add: processBatch_def handleBatchDownload_def resetBatch_def Let_def)

text \<open>
  Claim C10. After every sequence of events of the batch tab (files picked, operation
  picked, process clicks, interval ticks, download clicks, timeouts, resets), from the
  state the constructor leaves, \<^verbatim>\<open>currentBatch\<close> is empty, and
  \<^verbatim>\<open>getBatchSummary\<close> returns 0 for the total, processed and failed files and for
  the total size.
\<close>

theorem currentBatch_never_populated:
  "currentBatch (batch_run events) = []
   \<and> getBatchSummary (batch_run events)
       = \<lparr> totalFiles = 0, processedFiles = 0, failedFiles = 0, totalSize = 0 \<rparr>"
proof -
  have e: "currentBatch (batch_run events) = []"
  proof (induction events rule: rev_induct)
    case Nil
    show ?case by (simp add: batch_run_def newBatchManager_def)
  next
    case (snoc e events)
    then show ?case by (simp add: batch_run_snoc batch_step_currentBatch)
  qed
  then show ?thesis by (simp add: getBatchSummary_def)
qed

subsection \<open>The language selection and the translation artifacts\<close>

lemma translation_step_selection:
  "selectedLanguages (translation_step s e) =
     (case e of
        OptionClick lang \<Rightarrow>
          if lang \<in> set languageOptions
          then (if lang \<in> set (selectedLanguages s)
                then removeAll lang (selectedLanguages s)
                else selectedLanguages s @ [lang])
          else selectedLanguages s
      | ClearSelection \<Rightarrow> []
      | _ \<Rightarrow> selectedLanguages s)"
proof (cases e)
  case (OptionClick lang)
  then show ?thesis
    by (simp add: languageOptionClick_def updateTranslateButton_def set_has_def set_add_def
          set_delete_def)
next
  case (TranslationTick r)
  then show ?thesis
    by (auto simp: translationTick_def startTranslation_resume_def showTranslationResults_def
          Let_def split: option.splits prod.splits)
next
  case (DownloadClick i j)
  then show ?thesis
    by (simp add: translationDownloadClick_def handleTranslationDownload_def Let_def)
next
  case (TranslationFilesPicked files)
  then show ?thesis by (simp add: translationFilesPicked_def Let_def)
qed (simp_all add: startTranslation_def clearSelection_def updateTranslateButton_def)

lemma selection_reachable:
  "distinct (selectedLanguages (translation_run events))
   \<and> set (selectedLanguages (translation_run events)) \<subseteq> set languageOptions"
proof (induction events rule: rev_induct)
  case Nil
  show ?case by (simp add: translation_run_def newTranslationManager_def)
next
  case (snoc e events)
  then show ?case
    by (auto simp: translation_run_snoc translation_step_selection distinct_removeAll
             split: translation_event.splits)
qed

lemma language_labels:
  "map language_label languageOptions
     = [''german'', ''french'', ''russian'', ''chinese'', ''japanese'', ''hindi'', ''arabic'', ''italian'']"
  by (simp add: language_label_def languageOptions_def getLanguageData_def languages_def
        toLowerCase_def lower_char_def)

lemma language_label_inj: "inj_on language_label (set languageOptions)"
proof -
  have "distinct (map language_label languageOptions)"
    unfolding language_labels by simp
  then show ?thesis by (simp add: distinct_map)
qed

lemma distinct_pairs:
  "distinct (map g xs) \<Longrightarrow> distinct fs \<Longrightarrow>
   distinct (concat (map (\<lambda>x. map (\<lambda>f. (g x, f)) fs) xs))"
proof (induction xs)
  case Nil
  show ?case by simp
next
  case (Cons x xs)
  then have "distinct (concat (map (\<lambda>x. map (\<lambda>f. (g x, f)) fs) xs))" by simp
  moreover have "distinct (map (\<lambda>f. (g x, f)) fs)"
    using Cons.prems(2) by (simp add: distinct_map inj_on_def)
  moreover have "set (map (\<lambda>f. (g x, f)) fs) \<inter> set (concat (map (\<lambda>x. map (\<lambda>f. (g x, f)) fs) xs)) = {}"
    using Cons.prems(1) by auto
  ultimately show ?case by simp
qed

lemma translationArtifacts_shown:
  "translationArtifacts (showTranslationResults s)
     = concat (map (\<lambda>lang. map (\<lambda>f. (language_label lang, f)) [''mp3'', ''wav'', ''srt''])
                   (selectedLanguages s))"
  by (simp add: translationArtifacts_def showTranslationResults_def createTranslationOutput_def
        language_label_def comp_def)

lemma length_concat_const:
  "length (concat (map (\<lambda>x. map (h x) fs) xs)) = length xs * length fs"
  by (induction xs) simp_all

text \<open>
  Claim C9. A click on the option of a language code toggles the membership of that
  code in the selection and leaves the membership of every other code as it was; two
  clicks in succession restore the membership of the code, and the set of selected codes
  as a whole; and after every sequence of events of the translation tab the selection has
  no duplicates.
\<close>

theorem toggle_involution:
  "(c \<in> set (selectedLanguages (languageOptionClick c s))) = (c \<notin> set (selectedLanguages s))
   \<and> set (selectedLanguages (languageOptionClick c s)) - {c} = set (selectedLanguages s) - {c}
   \<and> (c \<in> set (selectedLanguages (languageOptionClick c (languageOptionClick c s))))
       = (c \<in> set (selectedLanguages s))
   \<and> set (selectedLanguages (languageOptionClick c (languageOptionClick c s)))
       = set (selectedLanguages s)
   \<and> distinct (selectedLanguages (translation_run events))"
proof -
  have sel: "selectedLanguages (languageOptionClick c s) =
           (if c \<in> set (selectedLanguages s) then removeAll c (selectedLanguages s)
            else selectedLanguages s @ [c])" for s
    by (simp add: languageOptionClick_def updateTranslateButton_def set_has_def set_add_def
          set_delete_def)
  have a: "(c \<in> set (selectedLanguages (languageOptionClick c s))) = (c \<notin> set (selectedLanguages s))"
    by (simp add: sel)
  have b: "set (selectedLanguages (languageOptionClick c s)) - {c} = set (selectedLanguages s) - {c}"
    by (auto simp: sel)
  have c: "set (selectedLanguages (languageOptionClick c (languageOptionClick c s)))
       = set (selectedLanguages s)"
    by (auto simp: sel)
  then have c': "(c \<in> set (selectedLanguages (languageOptionClick c (languageOptionClick c s))))
       = (c \<in> set (selectedLanguages s))" by simp
  from a b c c' selection_reachable [of events] show ?thesis by blast
qed

text \<open>
  Claim C8. The results view of a translation offers exactly \<open>N * F\<close> artifacts
  (download buttons), \<open>N\<close> the number of selected codes and \<open>F = 3\<close> the size of the
  fixed format set (mp3, wav, srt). After every sequence of events of the translation tab
  the selected codes are distinct, and the (language, format) pairs of the artifacts are
  pairwise distinct. With \<^verbatim>\<open>de\<close> and \<^verbatim>\<open>fr\<close> selected there are exactly 6.
\<close>

theorem translation_artifacts_count_unique:
  "length (translationArtifacts (showTranslationResults s))
     = length (selectedLanguages s) * length [''mp3'', ''wav'', ''srt'']
   \<and> distinct (selectedLanguages (translation_run events))
   \<and> distinct (translationArtifacts (showTranslationResults (translation_run events)))
   \<and> selectedLanguages (translation_run [OptionClick ''de'', OptionClick ''fr'']) = [''de'', ''fr'']
   \<and> translationArtifacts (showTranslationResults (translation_run [OptionClick ''de'', OptionClick ''fr'']))
       = [(''german'', ''mp3''), (''german'', ''wav''), (''german'', ''srt''),
          (''french'', ''mp3''), (''french'', ''wav''), (''french'', ''srt'')]"
proof -
  let ?s = "translation_run events"
  have len: "length (translationArtifacts (showTranslationResults s))
     = length (selectedLanguages s) * length [''mp3'', ''wav'', ''srt'']"
    unfolding translationArtifacts_shown by (rule length_concat_const)
  have d: "distinct (selectedLanguages ?s)" and sub: "set (selectedLanguages ?s) \<subseteq> set languageOptions"
    using selection_reachable [of events] by simp_all
  have "inj_on language_label (set (selectedLanguages ?s))"
    using language_label_inj sub by (rule inj_on_subset)
  with d have "distinct (map language_label (selectedLanguages ?s))"
    by (simp add: distinct_map)
  then have u: "distinct (translationArtifacts (showTranslationResults ?s))"
    unfolding translationArtifacts_shown by (rule distinct_pairs) simp
  have sel: "selectedLanguages (translation_run [OptionClick ''de'', OptionClick ''fr'']) = [''de'', ''fr'']"
    by (simp add: translation_run_def languageOptions_def newTranslationManager_def
          languageOptionClick_def updateTranslateButton_def set_has_def set_add_def set_delete_def)
  have ex: "translationArtifacts (showTranslationResults (translation_run [OptionClick ''de'', OptionClick ''fr'']))
       = [(''german'', ''mp3''), (''german'', ''wav''), (''german'', ''srt''),
          (''french'', ''mp3''), (''french'', ''wav''), (''french'', ''srt'')]"
    unfolding translationArtifacts_shown sel
    by (simp add: language_label_def getLanguageData_def languages_def toLowerCase_def lower_char_def)
  from len d u sel ex show ?thesis by blast
qed

text \<open>
  The language of an artifact is the lower-cased display name, and the codes outside the
  table of \<^verbatim>\<open>getLanguageData\<close> share the name \<^verbatim>\<open>Unknown\<close>; the page has no
  option with such a code.
\<close>

lemma unknown_codes_share_label:
  "translationArtifacts (showTranslationResults (newTranslationManager \<lparr> selectedLanguages := [''es'', ''pt''] \<rparr>))
     = [(''unknown'', ''mp3''), (''unknown'', ''wav''), (''unknown'', ''srt''),
        (''unknown'', ''mp3''), (''unknown'', ''wav''), (''unknown'', ''srt'')]"
  unfolding translationArtifacts_shown
  by (simp add: newTranslationManager_def language_label_def getLanguageData_def languages_def
        toLowerCase_def lower_char_def)

subsection \<open>Download names\<close>

text \<open>
  Claim C7, as the code has it. A click on the download button of format \<open>F\<close> in the
  results block of a selected language code names the file
  \<^verbatim>\<open>translation_\<close>\<open>L\<close>\<^verbatim>\<open>.\<close>\<open>F\<close>, where \<open>L\<close> is the lower-cased display name of the
  code (\<^verbatim>\<open>german\<close> for \<^verbatim>\<open>de\<close>), not the code; a transcription download of
  format \<open>F\<close> names the file \<^verbatim>\<open>transcription.\<close>\<open>F\<close>, with no language part; and a
  repeated download announces the same name again.
\<close>

theorem translation_download_names:
  assumes "i < length (selectedLanguages s)" and "j < length [''mp3'', ''wav'', ''srt'']"
  shows "tl_notifications (translationDownloadClick i j (showTranslationResults s))
           = tl_notifications s
             @ [(''Downloading '' @ (''translation_''
                   @ toLowerCase (lang_name (getLanguageData (selectedLanguages s ! i)))
                   @ ''.'' @ [''mp3'', ''wav'', ''srt''] ! j) @ ''...'', Info)]
       \<and> tl_notifications (translationDownloadClick i j
             (translationDownloadClick i j (showTranslationResults s)))
           = tl_notifications s
             @ [(''Downloading '' @ (''translation_''
                   @ toLowerCase (lang_name (getLanguageData (selectedLanguages s ! i)))
                   @ ''.'' @ [''mp3'', ''wav'', ''srt''] ! j) @ ''...'', Info),
                (''Downloading '' @ (''translation_''
                   @ toLowerCase (lang_name (getLanguageData (selectedLanguages s ! i)))
                   @ ''.'' @ [''mp3'', ''wav'', ''srt''] ! j) @ ''...'', Info)]
       \<and> tc_notifications (handleDownload format (handleDownload format t))
           = tc_notifications t
             @ [(''Downloading '' @ (''transcription.'' @ format) @ ''...'', Info),
                (''Downloading '' @ (''transcription.'' @ format) @ ''...'', Info)]
       \<and> toLowerCase (lang_name (getLanguageData ''de'')) = ''german''"
proof -
  have p: "translationOutputs (showTranslationResults s) ! i
             = createTranslationOutput (getLanguageData (selectedLanguages s ! i))"
    using assms(1) by (simp add: showTranslationResults_def)
  have l: "i < length (translationOutputs (showTranslationResults s))"
    using assms(1) by (simp add: showTranslationResults_def)
  have f: "data_formats (translationOutputs (showTranslationResults s) ! i) = [''mp3'', ''wav'', ''srt'']"
    by (simp add: p createTranslationOutput_def)
  have dl: "data_language (translationOutputs (showTranslationResults s) ! i)
              = toLowerCase (lang_name (getLanguageData (selectedLanguages s ! i)))"
    by (simp add: p createTranslationOutput_def)
  have n: "tl_notifications (showTranslationResults s) = tl_notifications s"
    by (simp add: showTranslationResults_def)
  have click: "translationDownloadClick i j s'
      = handleTranslationDownload
          (toLowerCase (lang_name (getLanguageData (selectedLanguages s ! i))))
          ([''mp3'', ''wav'', ''srt''] ! j) s'"
    if "translationOutputs s' = translationOutputs (showTranslationResults s)" for s'
    using assms(2) l by (simp add: translationDownloadClick_def that f dl)
  have keep: "translationOutputs (handleTranslationDownload a b s') = translationOutputs s'" for a b s'
    by (simp add: handleTranslationDownload_def Let_def)
  have one: "tl_notifications (translationDownloadClick i j (showTranslationResults s))
           = tl_notifications s
             @ [(''Downloading '' @ (''translation_''
                   @ toLowerCase (lang_name (getLanguageData (selectedLanguages s ! i)))
                   @ ''.'' @ [''mp3'', ''wav'', ''srt''] ! j) @ ''...'', Info)]"
    by (simp add: click handleTranslationDownload_def translationFilename_def
          showNotification_def Let_def n)
  have two: "tl_notifications (translationDownloadClick i j
             (translationDownloadClick i j (showTranslationResults s)))
           = tl_notifications s
             @ [(''Downloading '' @ (''translation_''
                   @ toLowerCase (lang_name (getLanguageData (selectedLanguages s ! i)))
                   @ ''.'' @ [''mp3'', ''wav'', ''srt''] ! j) @ ''...'', Info),
                (''Downloading '' @ (''translation_''
                   @ toLowerCase (lang_name (getLanguageData (selectedLanguages s ! i)))
                   @ ''.'' @ [''mp3'', ''wav'', ''srt''] ! j) @ ''...'', Info)]"
    by (simp add: click keep handleTranslationDownload_def translationFilename_def
          showNotification_def Let_def n)
  have three: "tc_notifications (handleDownload format (handleDownload format t))
           = tc_notifications t
             @ [(''Downloading '' @ (''transcription.'' @ format) @ ''...'', Info),
                (''Downloading '' @ (''transcription.'' @ format) @ ''...'', Info)]"
    by (simp add: handleDownload_def transcriptionFilename_def showNotification_def Let_def)
  have four: "toLowerCase (lang_name (getLanguageData ''de'')) = ''german''"
    by (simp add: getLanguageData_def languages_def toLowerCase_def lower_char_def)
  from one two three four show ?thesis by blast
qed

text \<open>German selected: the first download button of its block; two transcript downloads.\<close>

theorem translation_download_names_witness:
  "selectedLanguages (translation_run [OptionClick ''de'']) = [''de'']
   \<and> tl_notifications (translationDownloadClick 0 0
        (showTranslationResults (translation_run [OptionClick ''de''])))
      = [(''Downloading translation_german.mp3...'', Info)]
   \<and> tc_notifications (handleDownload ''txt'' (handleDownload ''txt'' newTranscriptionManager))
      = [(''Downloading transcription.txt...'', Info), (''Downloading transcription.txt...'', Info)]"
  using translation_download_names
    [of 0 "translation_run [OptionClick ''de'']" 0 "''txt''" newTranscriptionManager]
  by (simp add: translation_eval newTranscriptionManager_def)

text \<open>
  A whole translation of one file to German (eleven ticks with the draw 15/16 complete
  it), then a click on the MP3 button: the file announced is
  \<^verbatim>\<open>translation_german.mp3\<close>, not \<^verbatim>\<open>translation_de.mp3\<close>.
\<close>

theorem translation_download_counterexample:
  "tl_notifications
     (translation_run
        [OptionClick ''de'',
         TranslationFilesPicked [\<lparr> file_name = ''talk.mp3'', file_size = 1024, file_type = ''audio/mpeg'' \<rparr>],
         TranslateClick,
         TranslationTick (15 / 16), TranslationTick (15 / 16), TranslationTick (15 / 16), TranslationTick (15 / 16),
         TranslationTick (15 / 16), TranslationTick (15 / 16), TranslationTick (15 / 16), TranslationTick (15 / 16),
         TranslationTick (15 / 16), TranslationTick (15 / 16), TranslationTick (15 / 16),
         DownloadClick 0 0])
   = [(''File uploaded successfully!'', Success),
      (''Translation completed successfully!'', Success),
      (''Downloading translation_german.mp3...'', Info)]"
  by (simp add: translation_eval)

end
